theory Spec2Isabelle
  imports Main "HOL-Library.Sublist" "HOL-Library.Word"
begin

section \<open>Strings of the Go standard library\<close>

text \<open>
  A Go string is a sequence of bytes, here a \<^typ>\<open>string\<close>: a list of 8-bit characters.
  Text outside ASCII is its UTF-8 encoding, several bytes for one code point (a rune).
\<close>

definition nl :: string where
  "nl = [CHR 0x0A]"

text \<open>
  The UTF-8 encodings of the code points \<^verbatim>\<open>unicode.IsSpace\<close> accepts: tab, line feed,
  vertical tab, form feed, carriage return, space, U+0085, U+00A0, U+1680, U+2000 to
  U+200A, U+2028, U+2029, U+202F, U+205F and U+3000.
\<close>

definition spaceRunes :: "string list" where
  "spaceRunes =
     [[CHR 0x09], [CHR 0x0A], [CHR 0x0B], [CHR 0x0C], [CHR 0x0D], [CHR 0x20],
      [CHR 0xC2, CHR 0x85], [CHR 0xC2, CHR 0xA0],
      [CHR 0xE1, CHR 0x9A, CHR 0x80],
      [CHR 0xE2, CHR 0x80, CHR 0x80], [CHR 0xE2, CHR 0x80, CHR 0x81],
      [CHR 0xE2, CHR 0x80, CHR 0x82], [CHR 0xE2, CHR 0x80, CHR 0x83],
      [CHR 0xE2, CHR 0x80, CHR 0x84], [CHR 0xE2, CHR 0x80, CHR 0x85],
      [CHR 0xE2, CHR 0x80, CHR 0x86], [CHR 0xE2, CHR 0x80, CHR 0x87],
      [CHR 0xE2, CHR 0x80, CHR 0x88], [CHR 0xE2, CHR 0x80, CHR 0x89],
      [CHR 0xE2, CHR 0x80, CHR 0x8A],
      [CHR 0xE2, CHR 0x80, CHR 0xA8], [CHR 0xE2, CHR 0x80, CHR 0xA9],
      [CHR 0xE2, CHR 0x80, CHR 0xAF], [CHR 0xE2, CHR 0x81, CHR 0x9F],
      [CHR 0xE3, CHR 0x80, CHR 0x80]]"

text \<open>
  The loop of \<^verbatim>\<open>strings.TrimLeftFunc\<close>: as long as the text starts with one of the given
  runes, that rune is dropped.
\<close>

function trimLeftRunes :: "string list \<Rightarrow> string \<Rightarrow> string" where
  "trimLeftRunes rs s =
     (case find (\<lambda>e. e \<noteq> [] \<and> prefix e s) rs of
        None \<Rightarrow> s
      | Some e \<Rightarrow> trimLeftRunes rs (drop (length e) s))"
  by pat_completeness auto
termination
proof (relation "measure (\<lambda>(rs, s). length s)")
  show "wf (measure (\<lambda>(rs, s). length s))" by simp
next
  fix rs :: "string list" and s e :: string
  assume "find (\<lambda>e. e \<noteq> [] \<and> prefix e s) rs = Some e"
  then have "e \<noteq> [] \<and> prefix e s" by (auto simp add: find_Some_iff)
  then have "length (drop (length e) s) < length s"
    by (cases s) (auto simp add: prefix_def)
  then show "((rs, drop (length e) s), (rs, s)) \<in> measure (\<lambda>(rs, s). length s)" by simp
qed

declare trimLeftRunes.simps [simp del]

text \<open>
  \<^verbatim>\<open>strings.TrimSpace\<close>: the white-space runes are dropped from the left, then from the
  right. From the right the text is read backwards, a rune by its bytes in reverse.
\<close>

definition TrimLeftSpace :: "string \<Rightarrow> string" where
  "TrimLeftSpace s = trimLeftRunes spaceRunes s"

definition TrimRightSpace :: "string \<Rightarrow> string" where
  "TrimRightSpace s = rev (trimLeftRunes (map rev spaceRunes) (rev s))"

definition TrimSpace :: "string \<Rightarrow> string" where
  "TrimSpace s = TrimRightSpace (TrimLeftSpace s)"

text \<open>
  White space, for stating what \<^verbatim>\<open>TrimSpace\<close> does: a text made of white-space runes only,
  and a text that starts, or ends, with a white-space rune.
\<close>

inductive runeText :: "string list \<Rightarrow> string \<Rightarrow> bool" for rs :: "string list" where
  runeText_Nil: "runeText rs []"
| runeText_App: "e \<in> set rs \<Longrightarrow> runeText rs w \<Longrightarrow> runeText rs (e @ w)"

definition whiteSpace :: "string \<Rightarrow> bool" where
  "whiteSpace w = runeText spaceRunes w"

definition startsWithSpace :: "string \<Rightarrow> bool" where
  "startsWithSpace s = list_ex (\<lambda>e. prefix e s) spaceRunes"

definition endsWithSpace :: "string \<Rightarrow> bool" where
  "endsWithSpace s = list_ex (\<lambda>e. suffix e s) spaceRunes"

text \<open>The continuation bytes of UTF-8, \<open>0x80\<close> to \<open>0xBF\<close>.\<close>

definition isCont :: "char \<Rightarrow> bool" where
  "isCont c = (128 \<le> (of_char c :: nat) \<and> (of_char c :: nat) < 192)"

text \<open>
  \<^verbatim>\<open>strings.Trim(s, cutset)\<close> with a cutset of ASCII characters works on bytes: every
  leading and trailing byte contained in the cutset is dropped.
\<close>

definition TrimFunc :: "(char \<Rightarrow> bool) \<Rightarrow> string \<Rightarrow> string" where
  "TrimFunc f s = rev (dropWhile f (rev (dropWhile f s)))"

definition Trim :: "string \<Rightarrow> string \<Rightarrow> string" where
  "Trim s cutset = TrimFunc (\<lambda>c. c \<in> set cutset) s"

definition HasPrefix :: "string \<Rightarrow> string \<Rightarrow> bool" where
  "HasPrefix s p = (take (length p) s = p)"

definition TrimPrefix :: "string \<Rightarrow> string \<Rightarrow> string" where
  "TrimPrefix s p = (if HasPrefix s p then drop (length p) s else s)"

text \<open>
  \<^verbatim>\<open>strings.ToLower\<close>, as far as this program reads its result, which is only in
  \<^verbatim>\<open>HasPrefix\<close> against an ASCII text. The ASCII capitals become small letters; the two
  runes outside ASCII whose lower case is an ASCII letter become that letter (U+0130,
  bytes \<open>C4 B0\<close>, becomes \<open>i\<close>; U+212A, bytes \<open>E2 84 AA\<close>, becomes \<open>k\<close>). Every other rune
  outside ASCII has a lower case outside ASCII; its bytes are kept here.
\<close>

definition toLowerChar :: "char \<Rightarrow> char" where
  "toLowerChar c =
     (let n = (of_char c :: nat) in if 65 \<le> n \<and> n \<le> 90 then char_of (n + 32) else c)"

fun ToLower :: "string \<Rightarrow> string" where
  "ToLower (c # d # e # cs) =
     (if c = CHR 0xC4 \<and> d = CHR 0xB0 then CHR ''i'' # ToLower (e # cs)
      else if c = CHR 0xE2 \<and> d = CHR 0x84 \<and> e = CHR 0xAA then CHR ''k'' # ToLower cs
      else toLowerChar c # ToLower (d # e # cs))"
| "ToLower [c, d] =
     (if c = CHR 0xC4 \<and> d = CHR 0xB0 then [CHR ''i'']
      else toLowerChar c # ToLower [d])"
| "ToLower [c] = [toLowerChar c]"
| "ToLower [] = []"

text \<open>\<^verbatim>\<open>strings.Contains(s, sub)\<close>.\<close>

fun Contains :: "string \<Rightarrow> string \<Rightarrow> bool" where
  "Contains [] sub = (sub = [])"
| "Contains (c # cs) sub = (HasPrefix (c # cs) sub \<or> Contains cs sub)"

text \<open>
  \<^verbatim>\<open>strings.Split(s, "\n")\<close>: the pieces between line feeds; one piece more than there are
  line feeds, so never the empty list. The scan keeps the piece it is reading in \<open>cur\<close>.
\<close>

fun splitLines :: "string \<Rightarrow> string \<Rightarrow> string list" where
  "splitLines cur [] = [cur]"
| "splitLines cur (c # cs) =
     (if c = CHR 0x0A then cur # splitLines [] cs else splitLines (cur @ [c]) cs)"

definition Split :: "string \<Rightarrow> string list" where
  "Split s = splitLines [] s"

text \<open>\<^verbatim>\<open>strings.Join(lines, "\n")\<close>.\<close>

fun Join :: "string list \<Rightarrow> string" where
  "Join [] = []"
| "Join [l] = l"
| "Join (l # ls) = l @ nl @ Join ls"

section \<open>Staged diff (internal/git/git.go)\<close>

text \<open>
  \<^verbatim>\<open>formatSimpleDiff\<close>. A Go \<^verbatim>\<open>map[string]bool\<close> read at a missing key gives \<^verbatim>\<open>false\<close>, so
  the two sets are functions into \<^typ>\<open>bool\<close> that start everywhere false. The
  \<^verbatim>\<open>strings.Builder\<close> is the string written so far.
\<close>

definition lineSet :: "string list \<Rightarrow> (string \<Rightarrow> bool)" where
  "lineSet ls = foldl (\<lambda>m line. m(line := True)) (\<lambda>_. False) ls"

definition formatSimpleDiff :: "string list \<Rightarrow> string list \<Rightarrow> string" where
  "formatSimpleDiff oldLines newLines =
     (let oldSet = lineSet oldLines;
          newSet = lineSet newLines;
          removed = foldl (\<lambda>result line.
                       if \<not> newSet line then result @ (CHR ''-'' # line @ nl) else result)
                     [] oldLines
      in foldl (\<lambda>result line.
                  if \<not> oldSet line then result @ (CHR ''+'' # line @ nl) else result)
               removed newLines)"

text \<open>
  The presence-set diff as the specification words it: the old lines whose text is not
  among the new lines, each prefixed \<open>-\<close>, then the new lines whose text is not among the
  old lines, each prefixed \<open>+\<close>, both in their original order.
\<close>

definition presenceSetDiff :: "string list \<Rightarrow> string list \<Rightarrow> string" where
  "presenceSetDiff oldLines newLines =
     concat (map (\<lambda>l. CHR ''-'' # l @ nl) (filter (\<lambda>l. l \<notin> set newLines) oldLines)) @
     concat (map (\<lambda>l. CHR ''+'' # l @ nl) (filter (\<lambda>l. l \<notin> set oldLines) newLines))"


section \<open>Repository state read by internal/git/git.go\<close>

text \<open>
  Errors are their messages: \<^verbatim>\<open>GetCommitsAhead\<close> compares \<^verbatim>\<open>err.Error()\<close> with a text.
  A \<^verbatim>\<open>plumbing.Hash\<close> is 20 bytes, here a 160-bit word; \<^verbatim>\<open>Hash.String()\<close> is its
  40 lower-case hexadecimal digits.
\<close>

type_synonym error = string

type_synonym hash = "160 word"

definition hexDigit :: "nat \<Rightarrow> char" where
  "hexDigit n = ''0123456789abcdef'' ! (n mod 16)"

definition hashString :: "hash \<Rightarrow> string" where
  "hashString h = map (\<lambda>i. hexDigit (unat (drop_bit (4 * (39 - i)) h))) [0..<40]"

text \<open>The staging codes of go-git's \<^verbatim>\<open>StatusCode\<close>.\<close>

datatype StatusCode =
  Unmodified | Untracked | Modified | Added | Deleted | Renamed | Copied | UpdatedButUnmerged

record FileStatus =
  Staging :: StatusCode
  WorktreeCode :: StatusCode

record Reference =
  refName :: string
  refHash :: hash

record TreeFile =
  Contents :: "error + string"

record Commit =
  Hash :: hash
  Message :: string
  Tree :: "error + (string \<rightharpoonup> TreeFile)"

record IndexEntry =
  entryName :: string
  entryHash :: hash

record Blob =
  Reader :: "error + string"

text \<open>
  What the methods of \<^verbatim>\<open>Repository\<close> read from go-git, one field per call. \<open>Status\<close> is a
  Go map, ranged over in an order that is not fixed: the list is the order of one run.
  \<open>Log\<close> gives the commits its iterator yields, newest first, and the error the iterator
  ends with, if it fails before the end of history. \<open>References\<close> gives the names the
  reference iterator yields.
\<close>

record Repository =
  Worktree :: "error + unit"
  Status :: "error + (string \<times> FileStatus) list"
  Head :: "error + Reference"
  CommitObject :: "hash \<Rightarrow> error + Commit"
  Index :: "error + IndexEntry list"
  BlobObject :: "hash \<Rightarrow> error + Blob"
  ReferenceByName :: "string \<Rightarrow> error + Reference"
  Remotes :: "error + string list"
  References :: "error + string list"
  Log :: "hash \<Rightarrow> error + (Commit list \<times> error option)"

definition NewBranchReferenceName :: "string \<Rightarrow> string" where
  "NewBranchReferenceName name = ''refs/heads/'' @ name"

definition NewRemoteReferenceName :: "string \<Rightarrow> string \<Rightarrow> string" where
  "NewRemoteReferenceName remote name = ''refs/remotes/'' @ remote @ ''/'' @ name"

subsection \<open>GetStagedDiff\<close>

text \<open>The tree of the HEAD commit, \<^verbatim>\<open>nil\<close> when HEAD, its commit or its tree cannot be read.\<close>

definition headTreeOf :: "Repository \<Rightarrow> (string \<rightharpoonup> TreeFile) option" where
  "headTreeOf r =
     (case Head r of
        Inl _ \<Rightarrow> None
      | Inr headRef \<Rightarrow>
          (case CommitObject r (refHash headRef) of
             Inl _ \<Rightarrow> None
           | Inr headCommit \<Rightarrow>
               (case Tree headCommit of Inl _ \<Rightarrow> None | Inr t \<Rightarrow> Some t)))"

text \<open>
  The loop over \<^verbatim>\<open>idx.Entries\<close>: the first entry named \<open>filePath\<close> is read and the loop
  breaks; its content is there when the blob and its reader open (one \<^verbatim>\<open>Read\<close> is taken to
  fill the buffer of \<^verbatim>\<open>blob.Size\<close> bytes).
\<close>

definition indexContent :: "Repository \<Rightarrow> IndexEntry list \<Rightarrow> string \<Rightarrow> string option" where
  "indexContent r entries filePath =
     (case find (\<lambda>entry. entryName entry = filePath) entries of
        None \<Rightarrow> None
      | Some entry \<Rightarrow>
          (case BlobObject r (entryHash entry) of
             Inl _ \<Rightarrow> None
           | Inr blob \<Rightarrow> (case Reader blob of Inl _ \<Rightarrow> None | Inr content \<Rightarrow> Some content)))"

text \<open>\<^verbatim>\<open>file.Contents()\<close> with its error dropped: the empty string when it fails.\<close>

definition contentsOf :: "TreeFile \<Rightarrow> string" where
  "contentsOf file = (case Contents file of Inl _ \<Rightarrow> [] | Inr c \<Rightarrow> c)"

definition prefixLines :: "char \<Rightarrow> string list \<Rightarrow> string" where
  "prefixLines sign ls = foldl (\<lambda>b line. b @ (sign # line @ nl)) [] ls"

text \<open>What one pass of the loop over the status writes for a staged file.\<close>

definition fileBlock ::
  "Repository \<Rightarrow> (string \<rightharpoonup> TreeFile) option \<Rightarrow> IndexEntry list \<Rightarrow> string \<Rightarrow> StatusCode \<Rightarrow> string"
where
  "fileBlock r headTree entries filePath staging =
     ''diff --git a/'' @ filePath @ '' b/'' @ filePath @ nl @
     (case staging of
        Added \<Rightarrow>
          ''new file'' @ nl @
          (case indexContent r entries filePath of
             None \<Rightarrow> []
           | Some content \<Rightarrow>
               ''+++ b/'' @ filePath @ nl @ prefixLines (CHR ''+'') (Split content))
      | Modified \<Rightarrow>
          (case headTree of
             None \<Rightarrow> []
           | Some t \<Rightarrow>
               (case t filePath of
                  None \<Rightarrow> []
                | Some file \<Rightarrow>
                    ''--- a/'' @ filePath @ nl @ ''+++ b/'' @ filePath @ nl @
                    (case indexContent r entries filePath of
                       None \<Rightarrow> []
                     | Some newContent \<Rightarrow>
                         formatSimpleDiff (Split (contentsOf file)) (Split newContent))))
      | Deleted \<Rightarrow>
          ''deleted file'' @ nl @
          (case headTree of
             None \<Rightarrow> []
           | Some t \<Rightarrow>
               (case t filePath of
                  None \<Rightarrow> []
                | Some file \<Rightarrow>
                    ''--- a/'' @ filePath @ nl @ prefixLines (CHR ''-'') (Split (contentsOf file))))
      | _ \<Rightarrow> []) @
     nl"

definition stagedBlocks ::
  "Repository \<Rightarrow> (string \<rightharpoonup> TreeFile) option \<Rightarrow> IndexEntry list \<Rightarrow> (string \<times> FileStatus) list \<Rightarrow> string"
where
  "stagedBlocks r headTree entries status =
     foldl (\<lambda>diffBuilder (filePath, fileStatus).
              if Staging fileStatus = Unmodified \<or> Staging fileStatus = Untracked then diffBuilder
              else diffBuilder @ fileBlock r headTree entries filePath (Staging fileStatus))
           [] status"

definition GetStagedDiff :: "Repository \<Rightarrow> error + string" where
  "GetStagedDiff r =
     (case Worktree r of
        Inl e \<Rightarrow> Inl (''failed to get worktree: '' @ e)
      | Inr _ \<Rightarrow>
          (case Status r of
             Inl e \<Rightarrow> Inl (''failed to get status: '' @ e)
           | Inr status \<Rightarrow>
               (case Index r of
                  Inl e \<Rightarrow> Inl (''failed to get index: '' @ e)
                | Inr entries \<Rightarrow> Inr (stagedBlocks r (headTreeOf r) entries status))))"

definition HasStagedChanges :: "Repository \<Rightarrow> error + bool" where
  "HasStagedChanges r =
     (case Worktree r of
        Inl e \<Rightarrow> Inl (''failed to get worktree: '' @ e)
      | Inr _ \<Rightarrow>
          (case Status r of
             Inl e \<Rightarrow> Inl (''failed to get status: '' @ e)
           | Inr status \<Rightarrow>
               Inr (list_ex (\<lambda>(filePath, s). Staging s \<noteq> Unmodified \<and> Staging s \<noteq> Untracked) status)))"

subsection \<open>GetCurrentBranch, GetDefaultBranch, GetCommitsAhead, NeedsPush\<close>

definition IsBranch :: "string \<Rightarrow> bool" where
  "IsBranch name = HasPrefix name ''refs/heads/''"

text \<open>\<^verbatim>\<open>ReferenceName.Short\<close> on the names met here: branch and remote-tracking names.\<close>

definition Short :: "string \<Rightarrow> string" where
  "Short name =
     (if HasPrefix name ''refs/heads/'' then drop 11 name
      else if HasPrefix name ''refs/remotes/'' then drop 13 name
      else name)"

definition GetCurrentBranch :: "Repository \<Rightarrow> error + string" where
  "GetCurrentBranch r =
     (case Head r of
        Inl e \<Rightarrow> Inl (''failed to get HEAD: '' @ e)
      | Inr head \<Rightarrow>
          if \<not> IsBranch (refName head) then Inl ''HEAD is not on a branch (detached HEAD)''
          else Inr (Short (refName head)))"

text \<open>
  The callback of \<^verbatim>\<open>refs.ForEach\<close> in \<^verbatim>\<open>GetDefaultBranch\<close>, run over the reference names:
  returning the error \<^verbatim>\<open>found\<close> ends the iteration, returning \<^verbatim>\<open>nil\<close> goes on.
\<close>

fun scanRefs :: "string \<Rightarrow> string list \<Rightarrow> string" where
  "scanRefs defaultBranch [] = defaultBranch"
| "scanRefs defaultBranch (name # rest) =
     (if Contains name ''origin/main'' then ''main''
      else if Contains name ''origin/master'' then scanRefs ''master'' rest
      else scanRefs defaultBranch rest)"

definition noDefaultBranch :: error where
  "noDefaultBranch = ''could not determine default branch (no main or master found)''"

definition GetDefaultBranch :: "Repository \<Rightarrow> error + string" where
  "GetDefaultBranch r =
     (case ReferenceByName r (NewBranchReferenceName ''main'') of
        Inr _ \<Rightarrow> Inr ''main''
      | Inl _ \<Rightarrow>
          (case ReferenceByName r (NewBranchReferenceName ''master'') of
             Inr _ \<Rightarrow> Inr ''master''
           | Inl _ \<Rightarrow>
               (case Remotes r of
                  Inl _ \<Rightarrow> Inl noDefaultBranch
                | Inr remotes \<Rightarrow>
                    if length remotes > 0 then
                      (case References r of
                         Inl _ \<Rightarrow> Inl noDefaultBranch
                       | Inr refs \<Rightarrow>
                           (let defaultBranch = scanRefs [] refs
                            in if defaultBranch \<noteq> [] then Inr defaultBranch
                               else Inl noDefaultBranch))
                    else Inl noDefaultBranch)))"

record CommitInfo =
  ciHash :: string
  ciMessage :: string

definition commitInfo :: "Commit \<Rightarrow> CommitInfo" where
  "commitInfo c = \<lparr>ciHash = take 7 (hashString (Hash c)), ciMessage = hd (Split (Message c))\<rparr>"

text \<open>
  \<^verbatim>\<open>commitIter.ForEach\<close> with the callback of \<^verbatim>\<open>GetCommitsAhead\<close>: the commits collected and
  the error \<^verbatim>\<open>ForEach\<close> returns, which is the callback's \<^verbatim>\<open>reached base\<close>, or the
  iterator's own error once its commits are used up, or none.
\<close>

fun forEachCommit ::
  "hash \<Rightarrow> Commit list \<Rightarrow> error option \<Rightarrow> CommitInfo list \<Rightarrow> CommitInfo list \<times> error option"
where
  "forEachCommit baseHash [] iterErr commits = (commits, iterErr)"
| "forEachCommit baseHash (c # cs) iterErr commits =
     (if Hash c = baseHash then (commits, Some ''reached base'')
      else forEachCommit baseHash cs iterErr (commits @ [commitInfo c]))"

text \<open>The base reference: the local branch, else the remote-tracking branch of \<^verbatim>\<open>origin\<close>.\<close>

definition baseReference :: "Repository \<Rightarrow> string \<Rightarrow> error + Reference" where
  "baseReference r base =
     (case ReferenceByName r (NewBranchReferenceName base) of
        Inr baseRef \<Rightarrow> Inr baseRef
      | Inl _ \<Rightarrow>
          (case ReferenceByName r (NewRemoteReferenceName ''origin'' base) of
             Inr baseRef \<Rightarrow> Inr baseRef
           | Inl e \<Rightarrow> Inl (''failed to find base branch '' @ base @ '': '' @ e)))"

definition GetCommitsAhead :: "Repository \<Rightarrow> string \<Rightarrow> error + CommitInfo list" where
  "GetCommitsAhead r base =
     (case Head r of
        Inl e \<Rightarrow> Inl (''failed to get HEAD: '' @ e)
      | Inr head \<Rightarrow>
          (case baseReference r base of
             Inl e \<Rightarrow> Inl e
           | Inr baseRef \<Rightarrow>
               (case Log r (refHash head) of
                  Inl e \<Rightarrow> Inl (''failed to get log: '' @ e)
                | Inr (history, iterErr) \<Rightarrow>
                    (case forEachCommit (refHash baseRef) history iterErr [] of
                       (commits, Some e) \<Rightarrow>
                         if e \<noteq> ''reached base'' \<and> length commits = 0 then Inl e
                         else Inr commits
                     | (commits, None) \<Rightarrow> Inr commits))))"

definition NeedsPush :: "Repository \<Rightarrow> error + bool" where
  "NeedsPush r =
     (case Head r of
        Inl e \<Rightarrow> Inl (''failed to get HEAD: '' @ e)
      | Inr head \<Rightarrow>
          (case ReferenceByName r (NewRemoteReferenceName ''origin'' (Short (refName head))) of
             Inl _ \<Rightarrow> Inr True
           | Inr remoteRef \<Rightarrow> Inr (refHash head \<noteq> refHash remoteRef)))"

section \<open>Interpreting the model's reply (internal/llm/openai.go)\<close>

text \<open>The cutsets \<^verbatim>\<open>"\"'`"\<close> and \<^verbatim>\<open>"\"'`#"\<close>.\<close>

definition quoteCutset :: string where
  "quoteCutset = [CHR 0x22, CHR 0x27, CHR 0x60]"

definition titleCutset :: string where
  "titleCutset = [CHR 0x22, CHR 0x27, CHR 0x60, CHR ''#'']"

text \<open>
  The two statements of \<^verbatim>\<open>GenerateCommitMessage\<close> that turn the reply into the commit
  message: \<^verbatim>\<open>strings.TrimSpace\<close>, then \<^verbatim>\<open>strings.Trim\<close> with the quote cutset.
\<close>

definition ParseCommitMessage :: "string \<Rightarrow> string" where
  "ParseCommitMessage content = Trim (TrimSpace content) quoteCutset"

record PRContent =
  Title :: string
  Description :: string

text \<open>The loop of \<^verbatim>\<open>parseDescription\<close>, with its two variables.\<close>

fun descriptionLines :: "string list \<Rightarrow> string list \<Rightarrow> bool \<Rightarrow> string list" where
  "descriptionLines [] result foundContent = result"
| "descriptionLines (line # rest) result foundContent =
     (let trimmed = TrimSpace line in
      if HasPrefix (ToLower trimmed) ''description:'' then
        (let trimmed = TrimSpace (TrimPrefix (TrimPrefix trimmed ''Description:'') ''description:'')
         in if trimmed \<noteq> [] then descriptionLines rest (result @ [trimmed]) True
            else descriptionLines rest result foundContent)
      else if \<not> foundContent \<and> trimmed = [] then descriptionLines rest result foundContent
      else descriptionLines rest (result @ [line]) True)"

definition parseDescription :: "string list \<Rightarrow> string" where
  "parseDescription ls = TrimSpace (Join (descriptionLines ls [] False))"

text \<open>
  The loop of \<^verbatim>\<open>parsePRContent\<close> over the lines: \<open>rest\<close> is \<^verbatim>\<open>lines[i+1:]\<close>, which the
  source reads when \<^verbatim>\<open>i+1 < len(lines)\<close>; both \<^verbatim>\<open>break\<close>s return.
\<close>

fun findTitle :: "PRContent \<Rightarrow> string list \<Rightarrow> PRContent" where
  "findTitle pr [] = pr"
| "findTitle pr (l # rest) =
     (let line = TrimSpace l in
      if HasPrefix (ToLower line) ''title:'' then
        (let t1 = TrimSpace (TrimPrefix line ''Title:'');
             t2 = TrimSpace (TrimPrefix t1 ''title:'');
             pr = pr\<lparr>Title := Trim t2 quoteCutset\<rparr>
         in if rest \<noteq> [] then pr\<lparr>Description := parseDescription rest\<rparr> else pr)
      else if Title pr = [] \<and> line \<noteq> [] then
        (let pr = pr\<lparr>Title := Trim line titleCutset\<rparr>
         in if rest \<noteq> [] then pr\<lparr>Description := parseDescription rest\<rparr> else pr)
      else findTitle pr rest)"

definition parsePRContent :: "string \<Rightarrow> PRContent" where
  "parsePRContent content =
     (let ls = Split (TrimSpace content);
          pr = findTitle \<lparr>Title = [], Description = []\<rparr> ls
      in pr\<lparr>Title := TrimSpace (TrimPrefix (TrimPrefix (Title pr) ''Title:'') ''title:'')\<rparr>)"

definition maxDiffLength :: nat where
  "maxDiffLength = 10000"

definition truncateDiff :: "string \<Rightarrow> string" where
  "truncateDiff diff =
     (if length diff > maxDiffLength
      then take maxDiffLength diff @ nl @ nl @ ''[diff truncated due to length]''
      else diff)"

definition buildCommitPrompt :: "string \<Rightarrow> string" where
  "buildCommitPrompt diff =
     ''Generate a commit message for the following changes:'' @ nl @ nl @ diff"

definition buildPRPrompt :: "string \<Rightarrow> string \<Rightarrow> string" where
  "buildPRPrompt commits diff =
     ''Generate a PR title and description for the following changes.'' @ nl @ nl @
     ''Commits:'' @ nl @ commits @ nl @ nl @ ''Diff:'' @ nl @ diff"

text \<open>
  The chat completion is a collaborator: \<open>complete\<close> maps the user prompt to the error or the
  texts of \<^verbatim>\<open>resp.Choices\<close> (the system prompt and the options of the request are fixed).
\<close>

definition GenerateCommitMessage :: "(string \<Rightarrow> error + string list) \<Rightarrow> string \<Rightarrow> error + string" where
  "GenerateCommitMessage complete diff =
     (case complete (buildCommitPrompt (truncateDiff diff)) of
        Inl e \<Rightarrow> Inl (''failed to generate commit message: '' @ e)
      | Inr choices \<Rightarrow>
          (case choices of
             [] \<Rightarrow> Inl ''no response from OpenAI''
           | content # _ \<Rightarrow> Inr (ParseCommitMessage content)))"

definition GeneratePRContent ::
  "(string \<Rightarrow> error + string list) \<Rightarrow> string \<Rightarrow> string \<Rightarrow> error + PRContent"
where
  "GeneratePRContent complete commits diff =
     (case complete (buildPRPrompt commits (truncateDiff diff)) of
        Inl e \<Rightarrow> Inl (''failed to generate PR content: '' @ e)
      | Inr choices \<Rightarrow>
          (case choices of
             [] \<Rightarrow> Inl ''no response from OpenAI''
           | content # _ \<Rightarrow> Inr (parsePRContent content)))"

section \<open>Remote URLs (internal/github)\<close>

text \<open>
  The two patterns of \<^verbatim>\<open>ParseRemoteURL\<close> are read as a backtracking matcher: each piece
  maps the text still to match to the ways it can match, in the order a backtracking
  engine tries them, and \<^verbatim>\<open>FindStringSubmatch\<close> takes the first way at the leftmost
  start (Go's leftmost-first rule). A greedy \<^verbatim>\<open>+\<close> tries the longest run first, a lazy
  \<^verbatim>\<open>+?\<close> the shortest, a greedy \<^verbatim>\<open>?\<close> the piece before nothing; \<^verbatim>\<open>$\<close> is the end of the text.
\<close>

definition lit :: "string \<Rightarrow> string \<Rightarrow> string list" where
  "lit p s = (if HasPrefix s p then [drop (length p) s] else [])"

definition oneOf :: "(char \<Rightarrow> bool) \<Rightarrow> string \<Rightarrow> string list" where
  "oneOf P s = (case s of [] \<Rightarrow> [] | c # cs \<Rightarrow> if P c then [cs] else [])"

definition plusGreedy :: "(char \<Rightarrow> bool) \<Rightarrow> string \<Rightarrow> (string \<times> string) list" where
  "plusGreedy P s =
     map (\<lambda>k. (take k s, drop k s)) (rev [1..<Suc (length (takeWhile P s))])"

definition plusLazy :: "(char \<Rightarrow> bool) \<Rightarrow> string \<Rightarrow> (string \<times> string) list" where
  "plusLazy P s =
     map (\<lambda>k. (take k s, drop k s)) [1..<Suc (length (takeWhile P s))]"

definition optGreedy :: "string \<Rightarrow> string \<Rightarrow> string list" where
  "optGreedy p s = lit p s @ [s]"

definition notSlash :: "char \<Rightarrow> bool" where
  "notSlash c = (c \<noteq> CHR ''/'')"

text \<open>\<^verbatim>\<open>([^/]+)/([^/]+?)(?:\.git)?$\<close>, the part the two patterns share.\<close>

definition ownerRepo :: "string \<Rightarrow> (string \<times> string) list" where
  "ownerRepo s =
     concat (map (\<lambda>(owner, s1).
       concat (map (\<lambda>s2.
         concat (map (\<lambda>(name, s3).
           concat (map (\<lambda>s4. if s4 = [] then [(owner, name)] else [])
             (optGreedy ''.git'' s3)))
           (plusLazy notSlash s2)))
         (lit ''/'' s1)))
       (plusGreedy notSlash s))"

text \<open>\<^verbatim>\<open>git@github\.com[:/]\<close> and \<^verbatim>\<open>https?://github\.com/\<close>, each followed by the shared part.\<close>

definition sshPattern :: "string \<Rightarrow> (string \<times> string) list" where
  "sshPattern s =
     concat (map (\<lambda>s1.
       concat (map ownerRepo (oneOf (\<lambda>c. c = CHR '':'' \<or> c = CHR ''/'') s1)))
       (lit ''git@github.com'' s))"

definition httpsPattern :: "string \<Rightarrow> (string \<times> string) list" where
  "httpsPattern s =
     concat (map (\<lambda>s1.
       concat (map (\<lambda>s2.
         concat (map ownerRepo (lit ''://github.com/'' s2)))
         (optGreedy ''s'' s1)))
       (lit ''http'' s))"

fun FindStringSubmatch :: "(string \<Rightarrow> 'a list) \<Rightarrow> string \<Rightarrow> 'a option" where
  "FindStringSubmatch pat [] = (case pat [] of [] \<Rightarrow> None | m # _ \<Rightarrow> Some m)"
| "FindStringSubmatch pat (c # cs) =
     (case pat (c # cs) of [] \<Rightarrow> FindStringSubmatch pat cs | m # _ \<Rightarrow> Some m)"

record RepoInfo =
  Owner :: string
  Name :: string

definition ParseRemoteURL :: "string \<Rightarrow> error + RepoInfo" where
  "ParseRemoteURL url0 =
     (let url = TrimSpace url0 in
      case FindStringSubmatch sshPattern url of
        Some (owner, name) \<Rightarrow> Inr \<lparr>Owner = owner, Name = name\<rparr>
      | None \<Rightarrow>
          (case FindStringSubmatch httpsPattern url of
             Some (owner, name) \<Rightarrow> Inr \<lparr>Owner = owner, Name = name\<rparr>
           | None \<Rightarrow> Inl (''could not parse GitHub remote URL: '' @ url)))"

section \<open>Confirmation and the two commands (internal/ui, cmd)\<close>

datatype Action = ActionAccept | ActionEdit | ActionCancel

record CommitResult =
  crAction :: Action
  crMessage :: string

record PRResult =
  prAction :: Action
  prTitle :: string
  prDescription :: string

text \<open>
  What a run of a command meets outside the program: the environment, the repository it
  opens, the answers of the chat completion, what the user selects and types, and the
  outcomes of the three calls that change something (\<^verbatim>\<open>repo.Commit\<close>, \<^verbatim>\<open>repo.Push\<close>,
  \<^verbatim>\<open>ghClient.CreatePR\<close>). \<open>GetDiffFromBase\<close> and \<open>GetRemoteURL\<close> are read as given.
\<close>

record World =
  OPENAI_API_KEY :: string
  GITHUB_TOKEN :: string
  OpenCurrent :: "error + Repository"
  complete :: "string \<Rightarrow> error + string list"
  SelectChoice :: "error + string"
  EditMessage :: "error + string"
  EditPR :: "error + string \<times> string"
  RepoCommit :: "string \<Rightarrow> error + string"
  RepoPush :: "error option"
  GetDiffFromBase :: "string \<Rightarrow> error + string"
  GetRemoteURL :: "error + string"
  CreatePR :: "string \<Rightarrow> string \<Rightarrow> string \<Rightarrow> string \<Rightarrow> string \<Rightarrow> string \<Rightarrow> error + string"

text \<open>
  A run leaves a trace: the messages shown through \<^verbatim>\<open>ui.ShowInfo\<close> and \<^verbatim>\<open>ui.ShowSuccess\<close>
  and the calls of the three changing collaborators, in order.
\<close>

datatype Event =
  ShowInfo string
| ShowSuccess string
| CallCommit string
| CallPush
| CallCreatePR string string string string string string

definition mutating :: "Event \<Rightarrow> bool" where
  "mutating ev = (case ev of CallCommit _ \<Rightarrow> True | CallPush \<Rightarrow> True
                  | CallCreatePR _ _ _ _ _ _ \<Rightarrow> True | _ \<Rightarrow> False)"

definition ConfirmCommit :: "World \<Rightarrow> string \<Rightarrow> error + CommitResult" where
  "ConfirmCommit w message =
     (case SelectChoice w of
        Inl e \<Rightarrow> Inl (''prompt failed: '' @ e)
      | Inr choice \<Rightarrow>
          (let result = \<lparr>crAction = ActionAccept, crMessage = message\<rparr> in
           if choice = ''accept'' then Inr (result\<lparr>crAction := ActionAccept\<rparr>)
           else if choice = ''edit'' then
             (case EditMessage w of
                Inl e \<Rightarrow> Inl (''edit prompt failed: '' @ e)
              | Inr editedMessage \<Rightarrow>
                  if editedMessage \<noteq> []
                  then Inr (result\<lparr>crAction := ActionEdit, crMessage := TrimSpace editedMessage\<rparr>)
                  else Inr (result\<lparr>crAction := ActionEdit\<rparr>))
           else if choice = ''cancel'' then Inr (result\<lparr>crAction := ActionCancel\<rparr>)
           else Inr result))"

definition ConfirmPR :: "World \<Rightarrow> string \<Rightarrow> string \<Rightarrow> error + PRResult" where
  "ConfirmPR w title description =
     (case SelectChoice w of
        Inl e \<Rightarrow> Inl (''prompt failed: '' @ e)
      | Inr choice \<Rightarrow>
          (let result = \<lparr>prAction = ActionAccept, prTitle = title, prDescription = description\<rparr> in
           if choice = ''accept'' then Inr (result\<lparr>prAction := ActionAccept\<rparr>)
           else if choice = ''edit'' then
             (case EditPR w of
                Inl e \<Rightarrow> Inl (''edit prompt failed: '' @ e)
              | Inr (newTitle, newDescription) \<Rightarrow>
                  (let result = result\<lparr>prAction := ActionEdit\<rparr>;
                       result = (if newTitle \<noteq> [] then result\<lparr>prTitle := TrimSpace newTitle\<rparr>
                                 else result);
                       result = (if newDescription \<noteq> []
                                 then result\<lparr>prDescription := TrimSpace newDescription\<rparr>
                                 else result)
                   in Inr result))
           else if choice = ''cancel'' then Inr (result\<lparr>prAction := ActionCancel\<rparr>)
           else Inr result))"

definition checkOpenAIKey :: "World \<Rightarrow> error option" where
  "checkOpenAIKey w =
     (if OPENAI_API_KEY w = [] then
        Some (''OPENAI_API_KEY environment variable is not set.'' @ nl @ nl @
              ''To fix this:'' @ nl @
              [CHR '' '', CHR '' ''] @ ''export OPENAI_API_KEY='' @ [CHR 0x22] @ ''your-api-key'' @ [CHR 0x22] @ nl @ nl @
              ''Get your API key at: https://platform.openai.com/api-keys'')
      else None)"

definition checkGitHubToken :: "World \<Rightarrow> error option" where
  "checkGitHubToken w =
     (if GITHUB_TOKEN w = [] then
        Some (''GITHUB_TOKEN environment variable is not set.'' @ nl @ nl @
              ''To fix this:'' @ nl @
              [CHR '' '', CHR '' ''] @ ''export GITHUB_TOKEN='' @ [CHR 0x22] @ ''your-token'' @ [CHR 0x22] @ nl @ nl @
              ''Create a token at: https://github.com/settings/tokens'' @ nl @
              ''Required scope: repo'')
      else None)"

text \<open>\<^verbatim>\<open>llm.NewClient\<close> and \<^verbatim>\<open>github.NewClient\<close>: each fails when its variable is empty.\<close>

definition llmNewClient :: "World \<Rightarrow> error option" where
  "llmNewClient w =
     (if OPENAI_API_KEY w = [] then Some ''OPENAI_API_KEY environment variable is not set''
      else None)"

definition githubNewClient :: "World \<Rightarrow> error option" where
  "githubNewClient w =
     (if GITHUB_TOKEN w = [] then Some ''GITHUB_TOKEN environment variable is not set''
      else None)"

definition noStagedChanges :: error where
  "noStagedChanges =
     ''no staged changes found'' @ nl @ nl @
     ''To stage changes, use:'' @ nl @
     ''  git add <file>       # Stage specific file'' @ nl @
     ''  git add .            # Stage all changes'' @ nl @
     ''  git add -p           # Stage interactively''"

text \<open>\<^verbatim>\<open>runCommit\<close>: the trace of the run and the error it returns (\<open>None\<close> is \<^verbatim>\<open>nil\<close>).\<close>

definition runCommit :: "World \<Rightarrow> Event list \<times> error option" where
  "runCommit w =
     (case checkOpenAIKey w of
        Some e \<Rightarrow> ([], Some e)
      | None \<Rightarrow>
     (case OpenCurrent w of
        Inl e \<Rightarrow> ([], Some (''not a git repository: '' @ e))
      | Inr repo \<Rightarrow>
     (case HasStagedChanges repo of
        Inl e \<Rightarrow> ([], Some (''failed to check staged changes: '' @ e))
      | Inr hasStaged \<Rightarrow>
     if \<not> hasStaged then ([], Some noStagedChanges)
     else
     (let tr = [ShowInfo ''Analyzing staged changes...''] in
      case GetStagedDiff repo of
        Inl e \<Rightarrow> (tr, Some (''failed to get staged diff: '' @ e))
      | Inr diff \<Rightarrow>
     if diff = [] then (tr, Some ''no diff content found for staged changes'')
     else
     (case llmNewClient w of
        Some e \<Rightarrow> (tr, Some (''failed to create AI client: '' @ e))
      | None \<Rightarrow>
     (case GenerateCommitMessage (complete w) diff of
        Inl e \<Rightarrow> (tr, Some (''failed to generate commit message: '' @ e))
      | Inr message \<Rightarrow>
     (case ConfirmCommit w message of
        Inl e \<Rightarrow> (tr, Some (''prompt failed: '' @ e))
      | Inr result \<Rightarrow>
     (case crAction result of
        ActionCancel \<Rightarrow> (tr @ [ShowInfo ''Commit cancelled.''], None)
      | _ \<Rightarrow>
          (case RepoCommit w (crMessage result) of
             Inl e \<Rightarrow> (tr @ [CallCommit (crMessage result)],
                        Some (''failed to create commit: '' @ e))
           | Inr h \<Rightarrow> (tr @ [CallCommit (crMessage result), ShowSuccess (''Committed: '' @ h)],
                        None))))))))))"

text \<open>The decimal digits of a number, for the \<^verbatim>\<open>%d\<close> of \<^verbatim>\<open>fmt.Sprintf\<close>.\<close>

fun showNat :: "nat \<Rightarrow> string" where
  "showNat n =
     (if n < 10 then [''0123456789'' ! n]
      else showNat (n div 10) @ [''0123456789'' ! (n mod 10)])"

declare showNat.simps [simp del]

definition commitLine :: "CommitInfo \<Rightarrow> string" where
  "commitLine c = ciHash c @ '' '' @ ciMessage c"

text \<open>\<^verbatim>\<open>runPR\<close> after the user's answer: push when needed, then create the pull request.\<close>

definition pushAndCreate ::
  "World \<Rightarrow> Repository \<Rightarrow> RepoInfo \<Rightarrow> string \<Rightarrow> string \<Rightarrow> PRResult \<Rightarrow> Event list \<Rightarrow> Event list \<times> error option"
where
  "pushAndCreate w repo repoInfo baseBranch currentBranch result tr =
     (case NeedsPush repo of
        Inl e \<Rightarrow> (tr, Some (''failed to check push status: '' @ e))
      | Inr needsPush \<Rightarrow>
     (let pushed =
        (if needsPush then
           (case RepoPush w of
              Some e \<Rightarrow> (tr @ [ShowInfo ''Pushing branch to origin...'', CallPush],
                         Some (''failed to push branch: '' @ e))
            | None \<Rightarrow> (tr @ [ShowInfo ''Pushing branch to origin...'', CallPush], None))
         else (tr, None))
      in case pushed of
        (tr, Some e) \<Rightarrow> (tr, Some e)
      | (tr, None) \<Rightarrow>
     (let tr = tr @ [ShowInfo ''Creating pull request...''] in
      case githubNewClient w of
        Some e \<Rightarrow> (tr, Some (''failed to create GitHub client: '' @ e))
      | None \<Rightarrow>
     (let call = CallCreatePR (Owner repoInfo) (Name repoInfo) baseBranch currentBranch
                   (prTitle result) (prDescription result)
      in case CreatePR w (Owner repoInfo) (Name repoInfo) baseBranch currentBranch
                (prTitle result) (prDescription result) of
        Inl e \<Rightarrow> (tr @ [call], Some (''failed to create PR: '' @ e))
      | Inr url \<Rightarrow> (tr @ [call, ShowSuccess (''PR created: '' @ url)], None)))))"

definition runPR :: "World \<Rightarrow> Event list \<times> error option" where
  "runPR w =
     (case checkOpenAIKey w of
        Some e \<Rightarrow> ([], Some e)
      | None \<Rightarrow>
     (case checkGitHubToken w of
        Some e \<Rightarrow> ([], Some e)
      | None \<Rightarrow>
     (case OpenCurrent w of
        Inl e \<Rightarrow> ([], Some (''not a git repository: '' @ e))
      | Inr repo \<Rightarrow>
     (case GetCurrentBranch repo of
        Inl e \<Rightarrow> ([], Some (''failed to get current branch: '' @ e))
      | Inr currentBranch \<Rightarrow>
     (case GetDefaultBranch repo of
        Inl e \<Rightarrow> ([], Some (''failed to detect base branch: '' @ e))
      | Inr baseBranch \<Rightarrow>
     if currentBranch = baseBranch then
       ([], Some (''cannot create PR from '' @ baseBranch @ '' branch'' @ nl @ nl @
                  ''Create a feature branch first:'' @ nl @
                  ''  git checkout -b feature/my-feature''))
     else
     (let tr = [ShowInfo (''Analyzing branch '' @ [CHR 0x27] @ currentBranch @ [CHR 0x27] @
                          '' against '' @ [CHR 0x27] @ baseBranch @ [CHR 0x27] @ ''...'')] in
      case GetCommitsAhead repo baseBranch of
        Inl e \<Rightarrow> (tr, Some (''failed to get commits: '' @ e))
      | Inr commits \<Rightarrow>
     if length commits = 0 then
       (tr, Some (''no commits ahead of '' @ baseBranch @ nl @ nl @
                  ''Make some commits first, then run vibe pr again.''))
     else
     (let tr = tr @ [ShowInfo (''Found '' @ showNat (length commits) @ '' commit(s) ahead of '' @
                               baseBranch)];
          commitsText = Join (map commitLine commits) in
      case GetDiffFromBase w baseBranch of
        Inl e \<Rightarrow> (tr, Some (''failed to get diff: '' @ e))
      | Inr diff \<Rightarrow>
     if diff = [] then (tr, Some (''no changes found compared to '' @ baseBranch))
     else
     (case GetRemoteURL w of
        Inl e \<Rightarrow> (tr, Some (''failed to get remote URL: '' @ e))
      | Inr remoteURL \<Rightarrow>
     (case ParseRemoteURL remoteURL of
        Inl e \<Rightarrow> (tr, Some (''failed to parse GitHub remote: '' @ e))
      | Inr repoInfo \<Rightarrow>
     (case llmNewClient w of
        Some e \<Rightarrow> (tr, Some (''failed to create AI client: '' @ e))
      | None \<Rightarrow>
     (case GeneratePRContent (complete w) commitsText diff of
        Inl e \<Rightarrow> (tr, Some (''failed to generate PR content: '' @ e))
      | Inr prContent \<Rightarrow>
     (case ConfirmPR w (Title prContent) (Description prContent) of
        Inl e \<Rightarrow> (tr, Some (''prompt failed: '' @ e))
      | Inr result \<Rightarrow>
     (case prAction result of
        ActionCancel \<Rightarrow> (tr @ [ShowInfo ''PR creation cancelled.''], None)
      | _ \<Rightarrow> pushAndCreate w repo repoInfo baseBranch currentBranch result tr)))))))))))))"

section \<open>Reading a diff document and a remote URL\<close>

text \<open>
  The lines of a diff document that begin with \<open>+\<close>, and those that begin with \<open>-\<close>.
\<close>

definition plusLines :: "string \<Rightarrow> string list" where
  "plusLines doc = filter (\<lambda>l. HasPrefix l ''+'') (Split doc)"

definition minusLines :: "string \<Rightarrow> string list" where
  "minusLines doc = filter (\<lambda>l. HasPrefix l ''-'') (Split doc)"

text \<open>
  The lines \<^verbatim>\<open>GetStagedDiff\<close> writes for the content of an Added file: the path line and
  one line per line of the content, none when the content cannot be read. With the header
  and the blank line they are the lines of the file's block.
\<close>

definition addedLines :: "Repository \<Rightarrow> IndexEntry list \<Rightarrow> string \<Rightarrow> string list" where
  "addedLines r entries filePath =
     (case indexContent r entries filePath of
        None \<Rightarrow> []
      | Some content \<Rightarrow> (''+++ b/'' @ filePath) # map (\<lambda>line. CHR ''+'' # line) (Split content))"

definition blockLines :: "Repository \<Rightarrow> IndexEntry list \<Rightarrow> string \<times> FileStatus \<Rightarrow> string list" where
  "blockLines r entries entry =
     (case entry of (filePath, fileStatus) \<Rightarrow>
        if Staging fileStatus = Added
        then [''diff --git a/'' @ filePath @ '' b/'' @ filePath, ''new file'']
             @ addedLines r entries filePath @ [[]]
        else [])"

text \<open>
  The four beginnings the two patterns of \<^verbatim>\<open>ParseRemoteURL\<close> allow before the owner, and
  a text that ends like a GitHub remote: anything, one of the beginnings, an owner, a
  slash, a name and \<open>.git\<close> or nothing, owner and name not empty and without a slash.
\<close>

definition sshColon :: string where
  "sshColon = ''git@github.com:''"

definition sshSlash :: string where
  "sshSlash = ''git@github.com/''"

definition httpsSlash :: string where
  "httpsSlash = ''https://github.com/''"

definition httpSlash :: string where
  "httpSlash = ''http://github.com/''"

definition githubPrefixes :: "string list" where
  "githubPrefixes = [sshColon, sshSlash, httpsSlash, httpSlash]"

definition endsAsRemote :: "string \<Rightarrow> string \<Rightarrow> string \<Rightarrow> bool" where
  "endsAsRemote s owner name =
     (\<exists>pre scheme suf. s = pre @ scheme @ owner @ ''/'' @ name @ suf
        \<and> scheme \<in> set githubPrefixes \<and> (suf = [] \<or> suf = ''.git'')
        \<and> owner \<noteq> [] \<and> list_all notSlash owner \<and> name \<noteq> [] \<and> list_all notSlash name)"

section \<open>Example inputs\<close>

text \<open>
  A repository with one staged file \<open>f\<close>: the HEAD tree holds it with the lines a, b, c and
  the index with the lines a, b, d.
\<close>

definition exTree :: "string \<rightharpoonup> TreeFile" where
  "exTree = [''f'' \<mapsto> \<lparr>Contents = Inr (''a'' @ nl @ ''b'' @ nl @ ''c'')\<rparr>]"

definition exEntries :: "IndexEntry list" where
  "exEntries = [\<lparr>entryName = ''f'', entryHash = 1\<rparr>]"

definition exRepo :: "StatusCode \<Rightarrow> Repository" where
  "exRepo staging =
     \<lparr>Worktree = Inr (),
      Status = Inr [(''f'', \<lparr>Staging = staging, WorktreeCode = Unmodified\<rparr>)],
      Head = Inr \<lparr>refName = ''refs/heads/feature'', refHash = 7\<rparr>,
      CommitObject = (\<lambda>h. if h = 7 then Inr \<lparr>Hash = 7, Message = ''work'', Tree = Inr exTree\<rparr>
                           else Inl ''object not found''),
      Index = Inr exEntries,
      BlobObject = (\<lambda>h. if h = 1 then Inr \<lparr>Reader = Inr (''a'' @ nl @ ''b'' @ nl @ ''d'')\<rparr>
                         else Inl ''object not found''),
      ReferenceByName = (\<lambda>_. Inl ''reference not found''),
      Remotes = Inr [],
      References = Inr [],
      Log = (\<lambda>_. Inl ''object not found'')\<rparr>"

text \<open>
  The 13 characters of a single quote, two spaces, \<open>Add x\<close> in double quotes, two spaces and
  a single quote.
\<close>

definition quoted13 :: string where
  "quoted13 = [CHR 0x27] @ ''  '' @ [CHR 0x22] @ ''Add x'' @ [CHR 0x22] @ ''  '' @ [CHR 0x27]"

text \<open>
  A repository given by its references: the names that resolve, the configured remotes and
  the names the reference iterator yields.
\<close>

definition refsRepo :: "string list \<Rightarrow> string list \<Rightarrow> string list \<Rightarrow> Repository" where
  "refsRepo resolving remotes refs =
     \<lparr>Worktree = Inr (),
      Status = Inr [],
      Head = Inr \<lparr>refName = ''refs/heads/feature'', refHash = 7\<rparr>,
      CommitObject = (\<lambda>_. Inl ''object not found''),
      Index = Inr [],
      BlobObject = (\<lambda>_. Inl ''object not found''),
      ReferenceByName = (\<lambda>n. if n \<in> set resolving then Inr \<lparr>refName = n, refHash = 1\<rparr>
                               else Inl ''reference not found''),
      Remotes = Inr remotes,
      References = Inr refs,
      Log = (\<lambda>_. Inl ''object not found'')\<rparr>"

text \<open>
  A history H3, H2, H1, Base (newest first) on the branch \<open>feature\<close>, with the local branch
  \<open>main\<close> at Base; and the same history when the iterator fails after H1 before Base is
  reached.
\<close>

definition exCommit :: "hash \<Rightarrow> string \<Rightarrow> Commit" where
  "exCommit h m = \<lparr>Hash = h, Message = m, Tree = Inl ''tree not read''\<rparr>"

definition exHistory :: "Commit list" where
  "exHistory =
     [exCommit 0x3333333333333333333333333333333333333333 (''Add parser'' @ nl @ nl @ ''Details.''),
      exCommit 0x2222222222222222222222222222222222222222 ''Fix typo'',
      exCommit 0x1111111111111111111111111111111111111111 ''Start feature'',
      exCommit 0xbbbbbbbbbbbbbbbbbbbbbbbbbbbbbbbbbbbbbbbb ''Base'']"

definition historyRepo :: "Commit list \<Rightarrow> error option \<Rightarrow> Repository" where
  "historyRepo history iterErr =
     \<lparr>Worktree = Inr (),
      Status = Inr [],
      Head = Inr \<lparr>refName = ''refs/heads/feature'',
                  refHash = 0x3333333333333333333333333333333333333333\<rparr>,
      CommitObject = (\<lambda>_. Inl ''object not found''),
      Index = Inr [],
      BlobObject = (\<lambda>_. Inl ''object not found''),
      ReferenceByName =
        (\<lambda>n. if n = ''refs/heads/main''
             then Inr \<lparr>refName = n, refHash = 0xbbbbbbbbbbbbbbbbbbbbbbbbbbbbbbbbbbbbbbbb\<rparr>
             else Inl ''reference not found''),
      Remotes = Inr [],
      References = Inr [''refs/heads/feature'', ''refs/heads/main''],
      Log = (\<lambda>h. Inr (history, iterErr))\<rparr>"

text \<open>
  A run in which every step before the confirmation succeeds: the repository, the reply of
  the model and the user's selection are given; the three changing calls would succeed.
\<close>

definition exWorld :: "Repository \<Rightarrow> string \<Rightarrow> string \<Rightarrow> World" where
  "exWorld repo reply choice =
     \<lparr>OPENAI_API_KEY = ''sk-test'',
      GITHUB_TOKEN = ''ghp-test'',
      OpenCurrent = Inr repo,
      complete = (\<lambda>_. Inr [reply]),
      SelectChoice = Inr choice,
      EditMessage = Inr [],
      EditPR = Inr ([], []),
      RepoCommit = (\<lambda>_. Inr ''abc1234''),
      RepoPush = None,
      GetDiffFromBase = (\<lambda>_. Inr ''diff --git a/f b/f''),
      GetRemoteURL = Inr ''git@github.com:acme/widgets.git'',
      CreatePR = (\<lambda>owner repo base head title body. Inr ''https://github.com/acme/widgets/pull/1'')\<rparr>"

text \<open>The document of the example repository when its file is Added.\<close>

definition exAddedDoc :: string where
  "exAddedDoc =
     ''diff --git a/f b/f'' @ nl @ ''new file'' @ nl @ ''+++ b/f'' @ nl @
     ''+a'' @ nl @ ''+b'' @ nl @ ''+d'' @ nl @ nl"


section \<open>Proofs\<close>

subsection \<open>Splitting into lines\<close>

lemma splitLines_cur: "splitLines cur s = (cur @ hd (splitLines [] s)) # tl (splitLines [] s)"
proof (induction s arbitrary: cur)
  case Nil
  show ?case by simp
next
  case (Cons c cs)
  show ?case
  proof (cases "c = CHR 0x0A")
    case True
    then show ?thesis by simp
  next
    case False
    have "splitLines cur (c # cs) = splitLines (cur @ [c]) cs" using False by simp
    also have "\<dots> = ((cur @ [c]) @ hd (splitLines [] cs)) # tl (splitLines [] cs)"
      by (rule Cons.IH)
    also have "\<dots> = (cur @ hd (splitLines [c] cs)) # tl (splitLines [c] cs)"
      by (subst (2 3) Cons.IH) simp
    finally show ?thesis using False by simp
  qed
qed

lemma Split_Nil: "Split [] = [[]]"
  by (simp add: Split_def)

lemma Split_Cons:
  "Split (c # cs) =
     (if c = CHR 0x0A then [] # Split cs else (c # hd (Split cs)) # tl (Split cs))"
  using splitLines_cur [of "[c]" cs] by (simp add: Split_def)

lemma Split_not_Nil: "Split s \<noteq> []"
  by (induction s) (simp_all add: Split_Nil Split_Cons)

lemma hd_Split: "hd (Split s) = takeWhile (\<lambda>c. c \<noteq> CHR 0x0A) s"
  by (induction s) (simp_all add: Split_Nil Split_Cons)

subsection \<open>The presence-set diff\<close>


lemma lineSet_foldl:
  "foldl (\<lambda>m line. m(line := True)) m0 ls l = (m0 l \<or> l \<in> set ls)"
  by (induction ls arbitrary: m0) auto

lemma lineSet_iff: "lineSet ls l = (l \<in> set ls)"
  by (simp add: lineSet_def lineSet_foldl)

lemma foldl_emit:
  "foldl (\<lambda>result line. if P line then result @ f line else result) acc ls
     = acc @ concat (map f (filter P ls))"
  by (induction ls arbitrary: acc) auto

lemma formatSimpleDiff_eq: "formatSimpleDiff oldLines newLines = presenceSetDiff oldLines newLines"
  by (simp add: formatSimpleDiff_def presenceSetDiff_def Let_def lineSet_iff foldl_emit)

text \<open>
  Claim C1. The body written for a Modified file is the presence-set diff of the old
  lines (HEAD tree) and the new lines (index): \<^verbatim>\<open>formatSimpleDiff\<close> equals the diff the
  specification words, membership being by exact text; on the old lines a, b, c and the
  new lines a, b, d it is \<open>-c\<close> then \<open>+d\<close>; and the block of a Modified file whose two
  contents can be read is the header, the two path lines, that diff and a blank line.
\<close>

theorem staged_diff_modified_is_presence_set_diff:
  "formatSimpleDiff oldLines newLines = presenceSetDiff oldLines newLines
   \<and> formatSimpleDiff [''a'', ''b'', ''c''] [''a'', ''b'', ''d''] = ''-c'' @ nl @ ''+d'' @ nl
   \<and> (t filePath = Some file \<and> indexContent r entries filePath = Some newContent \<longrightarrow>
        fileBlock r (Some t) entries filePath Modified =
          ''diff --git a/'' @ filePath @ '' b/'' @ filePath @ nl @
          ''--- a/'' @ filePath @ nl @ ''+++ b/'' @ filePath @ nl @
          presenceSetDiff (Split (contentsOf file)) (Split newContent) @ nl)"
  by (simp add: formatSimpleDiff_eq presenceSetDiff_def fileBlock_def)

theorem staged_diff_modified_witness:
  "fileBlock (exRepo Modified) (Some exTree) exEntries ''f'' Modified =
     ''diff --git a/f b/f'' @ nl @ ''--- a/f'' @ nl @ ''+++ b/f'' @ nl @
     ''-c'' @ nl @ ''+d'' @ nl @ nl"
  using staged_diff_modified_is_presence_set_diff
    [of "[]" "[]" exTree "''f''" "\<lparr>Contents = Inr (''a'' @ nl @ ''b'' @ nl @ ''c'')\<rparr>"
        "exRepo Modified" exEntries "''a'' @ nl @ ''b'' @ nl @ ''d''"]
  by (simp add: exTree_def exRepo_def exEntries_def indexContent_def contentsOf_def
      presenceSetDiff_def nl_def Split_def)

text \<open>
  Claim C10. Two line lists with the same set of distinct line texts (a permutation, or a
  copy with duplicated lines) have an empty presence-set diff: \<^verbatim>\<open>formatSimpleDiff\<close> returns
  the empty string.
\<close>

theorem equal_line_sets_give_empty_diff:
  "set oldLines = set newLines \<Longrightarrow> formatSimpleDiff oldLines newLines = []"
  by (simp add: formatSimpleDiff_eq presenceSetDiff_def)

theorem equal_line_sets_witness:
  "set [''a'', ''b''] = set [''b'', ''a'', ''a'']
   \<and> formatSimpleDiff [''a'', ''b''] [''b'', ''a'', ''a''] = []"
proof -
  have h: "set [''a'', ''b''] = set [''b'', ''a'', ''a'']" by auto
  show ?thesis using h equal_line_sets_give_empty_diff [OF h] by simp
qed

subsection \<open>Trimming\<close>

lemma find_rune_Some:
  "find (\<lambda>e. e \<noteq> [] \<and> prefix e s) rs = Some e \<Longrightarrow> e \<in> set rs \<and> e \<noteq> [] \<and> prefix e s"
  by (auto simp add: find_Some_iff)

lemma find_rune_None:
  "find (\<lambda>e. e \<noteq> [] \<and> prefix e s) rs = None \<longleftrightarrow> (\<forall>e\<in>set rs. e = [] \<or> \<not> prefix e s)"
  by (auto simp add: find_None_iff)

lemma trimLeftRunes_stop:
  assumes "\<forall>e\<in>set rs. e = [] \<or> \<not> prefix e s"
  shows "trimLeftRunes rs s = s"
proof -
  from assms have "find (\<lambda>e. e \<noteq> [] \<and> prefix e s) rs = None"
    by (simp only: find_rune_None)
  then show ?thesis by (subst trimLeftRunes.simps) simp
qed

lemma trimLeftRunes_decomp:
  "\<exists>w. runeText rs w \<and> s = w @ trimLeftRunes rs s
       \<and> (\<forall>e\<in>set rs. e = [] \<or> \<not> prefix e (trimLeftRunes rs s))"
proof (induction rs s rule: trimLeftRunes.induct)
  case (1 rs s)
  show ?case
  proof (cases "find (\<lambda>e. e \<noteq> [] \<and> prefix e s) rs")
    case None
    then have stop: "\<forall>e\<in>set rs. e = [] \<or> \<not> prefix e s" by (simp add: find_rune_None)
    then have "trimLeftRunes rs s = s" by (rule trimLeftRunes_stop)
    with stop have "runeText rs [] \<and> s = [] @ trimLeftRunes rs s
        \<and> (\<forall>e\<in>set rs. e = [] \<or> \<not> prefix e (trimLeftRunes rs s))"
      by (simp add: runeText_Nil)
    then show ?thesis by blast
  next
    case (Some e)
    then have e: "e \<in> set rs" "prefix e s" by (auto dest: find_rune_Some)
    from Some have step: "trimLeftRunes rs s = trimLeftRunes rs (drop (length e) s)"
      by (subst trimLeftRunes.simps) simp
    from "1.IH" [OF Some] obtain w where w: "runeText rs w"
      "drop (length e) s = w @ trimLeftRunes rs (drop (length e) s)"
      "\<forall>e'\<in>set rs. e' = [] \<or> \<not> prefix e' (trimLeftRunes rs (drop (length e) s))"
      by blast
    from e(2) have "s = e @ drop (length e) s" by (auto simp add: prefix_def)
    with w(2) have "s = (e @ w) @ trimLeftRunes rs s" by (simp add: step)
    moreover have "runeText rs (e @ w)" using e(1) w(1) by (rule runeText_App)
    ultimately show ?thesis using w(3) step by metis
  qed
qed

lemma trimLeftRunes_unique:
  assumes pf: "\<forall>e\<in>set rs. \<forall>e'\<in>set rs. prefix e e' \<longrightarrow> e = e'"
    and ne: "[] \<notin> set rs"
    and w: "runeText rs w"
    and m: "\<forall>e\<in>set rs. \<not> prefix e m"
  shows "trimLeftRunes rs (w @ m) = m"
  using w
proof (induction w rule: runeText.induct)
  case runeText_Nil
  from m have "trimLeftRunes rs m = m" by (intro trimLeftRunes_stop) blast
  then show ?case by simp
next
  case (runeText_App e w)
  let ?s = "e @ w @ m"
  from runeText_App.hyps(1) ne have ene: "e \<noteq> []" by auto
  have "find (\<lambda>e. e \<noteq> [] \<and> prefix e ?s) rs \<noteq> None"
    using runeText_App.hyps(1) ene by (auto simp add: find_rune_None)
  then obtain e' where f: "find (\<lambda>e. e \<noteq> [] \<and> prefix e ?s) rs = Some e'" by blast
  then have e': "e' \<in> set rs" "prefix e' ?s" by (auto dest: find_rune_Some)
  have "prefix e ?s" by simp
  with e'(2) have "prefix e e' \<or> prefix e' e" by (rule prefix_same_cases [THEN disjE]) auto
  with pf runeText_App.hyps(1) e'(1) have "e' = e" by metis
  with f have "trimLeftRunes rs ?s = trimLeftRunes rs (drop (length e) ?s)"
    by (subst trimLeftRunes.simps) simp
  then show ?case using runeText_App.IH by simp
qed

lemma runeText_single: "e \<in> set rs \<Longrightarrow> runeText rs e"
  using runeText_App [OF _ runeText_Nil, of e rs] by simp

lemma runeText_append: "runeText rs a \<Longrightarrow> runeText rs b \<Longrightarrow> runeText rs (a @ b)"
proof (induction a rule: runeText.induct)
  case runeText_Nil
  then show ?case by simp
next
  case (runeText_App e w)
  have "runeText rs (w @ b)" using runeText_App.prems by (rule runeText_App.IH)
  with runeText_App.hyps(1) have "runeText rs (e @ (w @ b))" by (rule runeText.intros(2))
  then show ?case by simp
qed

lemma runeText_rev: "runeText rs w \<Longrightarrow> runeText (map rev rs) (rev w)"
proof (induction w rule: runeText.induct)
  case runeText_Nil
  show ?case by (simp add: runeText.runeText_Nil)
next
  case (runeText_App e w)
  have "runeText (map rev rs) (rev e)"
    using runeText_App.hyps(1) by (intro runeText_single) auto
  with runeText_App.IH have "runeText (map rev rs) (rev w @ rev e)" by (rule runeText_append)
  then show ?case by simp
qed

lemma spaceRunes_prefix_free:
  "\<forall>e\<in>set spaceRunes. \<forall>e'\<in>set spaceRunes. prefix e e' \<longrightarrow> e = e'"
  by (simp add: spaceRunes_def)

lemma spaceRunes_suffix_free:
  "\<forall>e\<in>set (map rev spaceRunes). \<forall>e'\<in>set (map rev spaceRunes). prefix e e' \<longrightarrow> e = e'"
  by (simp add: spaceRunes_def)

lemma spaceRunes_shape:
  "\<forall>e\<in>set spaceRunes. e \<noteq> [] \<and> \<not> isCont (hd e) \<and> list_all isCont (tl e)"
  by (simp add: spaceRunes_def isCont_def)

lemma spaceRunes_nonempty: "[] \<notin> set spaceRunes"
  by (simp add: spaceRunes_def)

lemma startsWithSpace_iff: "startsWithSpace s \<longleftrightarrow> (\<exists>e\<in>set spaceRunes. prefix e s)"
  by (simp add: startsWithSpace_def list_ex_iff)

lemma endsWithSpace_iff: "endsWithSpace s \<longleftrightarrow> (\<exists>e\<in>set spaceRunes. suffix e s)"
  by (simp add: endsWithSpace_def list_ex_iff)

lemma whiteSpace_hd:
  assumes "whiteSpace w" and "w \<noteq> []"
  shows "\<not> isCont (hd w)"
  using assms unfolding whiteSpace_def
proof (induction w rule: runeText.induct)
  case runeText_Nil
  then show ?case by simp
next
  case (runeText_App e w)
  from runeText_App.hyps(1) spaceRunes_shape have "e \<noteq> []" "\<not> isCont (hd e)" by auto
  then show ?case by simp
qed

lemma not_startsWithSpace_append:
  assumes m: "\<not> startsWithSpace m" and ne: "m \<noteq> []" and w: "whiteSpace w"
  shows "\<not> startsWithSpace (m @ w)"
proof
  assume "startsWithSpace (m @ w)"
  then obtain e where e: "e \<in> set spaceRunes" "prefix e (m @ w)"
    by (auto simp add: startsWithSpace_iff)
  from m e(1) have "\<not> prefix e m" by (auto simp add: startsWithSpace_iff)
  with e(2) obtain us where us: "e = m @ us" "prefix us w" "us \<noteq> []"
    by (auto simp add: prefix_append)
  from e(1) spaceRunes_shape have "list_all isCont (tl e)" by auto
  with us(1) ne have "list_all isCont us" by (cases m) auto
  with us(3) have c: "isCont (hd us)" by (cases us) auto
  from us(2,3) have "w \<noteq> []" "hd w = hd us" by (cases us; auto simp add: prefix_def)+
  with w c whiteSpace_hd show False by metis
qed

lemma TrimSpace_decomp:
  "\<exists>w1 w2. s = w1 @ TrimSpace s @ w2 \<and> whiteSpace w1 \<and> whiteSpace w2
     \<and> \<not> startsWithSpace (TrimSpace s) \<and> \<not> endsWithSpace (TrimSpace s)"
proof -
  let ?l = "TrimLeftSpace s"
  let ?rs = "map rev spaceRunes"
  let ?t = "trimLeftRunes ?rs (rev ?l)"
  from trimLeftRunes_decomp [of spaceRunes s]
  obtain w1 where w1: "runeText spaceRunes w1" "s = w1 @ ?l"
    "\<forall>e\<in>set spaceRunes. e = [] \<or> \<not> prefix e ?l"
    unfolding TrimLeftSpace_def by blast
  from trimLeftRunes_decomp [of ?rs "rev ?l"]
  obtain v where v: "runeText ?rs v" "rev ?l = v @ ?t"
    "\<forall>e\<in>set ?rs. e = [] \<or> \<not> prefix e ?t"
    by blast
  have t: "TrimSpace s = rev ?t" by (simp add: TrimSpace_def TrimRightSpace_def)
  from v(2) have "rev (rev ?l) = rev (v @ ?t)" by (rule arg_cong)
  then have l: "?l = rev ?t @ rev v" by simp
  from runeText_rev [OF v(1)] have wv: "whiteSpace (rev v)"
    by (simp add: whiteSpace_def rev_map [symmetric] comp_def)
  have ns: "\<not> startsWithSpace (rev ?t)"
  proof
    assume "startsWithSpace (rev ?t)"
    then obtain e where "e \<in> set spaceRunes" "prefix e (rev ?t)"
      by (auto simp add: startsWithSpace_iff)
    then have "e \<in> set spaceRunes" "prefix e ?l" "e \<noteq> []"
      using l spaceRunes_nonempty by (auto simp add: prefix_def)
    with w1(3) show False by blast
  qed
  have ne: "\<not> endsWithSpace (rev ?t)"
  proof
    assume "endsWithSpace (rev ?t)"
    then obtain e where e: "e \<in> set spaceRunes" "suffix e (rev ?t)"
      by (auto simp add: endsWithSpace_iff)
    then have "rev e \<in> set ?rs" "prefix (rev e) ?t" "rev e \<noteq> []"
      using spaceRunes_nonempty by (auto simp add: suffix_to_prefix)
    with v(3) show False by blast
  qed
  from w1(2) l have "s = w1 @ TrimSpace s @ rev v" by (simp add: t)
  with w1(1) wv ns ne show ?thesis unfolding t whiteSpace_def by blast
qed

lemma TrimSpace_unique:
  assumes s: "s = w1 @ m @ w2" and w1: "whiteSpace w1" and w2: "whiteSpace w2"
    and ns: "\<not> startsWithSpace m" and ne: "\<not> endsWithSpace m"
  shows "TrimSpace s = m"
proof (cases "m = []")
  case True
  from w1 w2 have "runeText spaceRunes (w1 @ w2)"
    unfolding whiteSpace_def by (rule runeText_append)
  then have "trimLeftRunes spaceRunes ((w1 @ w2) @ []) = []"
    using spaceRunes_nonempty
    by (intro trimLeftRunes_unique spaceRunes_prefix_free) auto
  then have "TrimLeftSpace s = []" using s True by (simp add: TrimLeftSpace_def)
  moreover have "trimLeftRunes (map rev spaceRunes) [] = []"
    by (intro trimLeftRunes_stop) auto
  ultimately show ?thesis using True by (simp add: TrimSpace_def TrimRightSpace_def)
next
  case False
  from ns False w2 have "\<not> startsWithSpace (m @ w2)" by (rule not_startsWithSpace_append)
  then have "\<forall>e\<in>set spaceRunes. \<not> prefix e (m @ w2)" by (simp add: startsWithSpace_iff)
  with w1 have "trimLeftRunes spaceRunes (w1 @ (m @ w2)) = m @ w2"
    unfolding whiteSpace_def
    using spaceRunes_nonempty by (intro trimLeftRunes_unique spaceRunes_prefix_free) auto
  then have l: "TrimLeftSpace s = m @ w2" using s by (simp add: TrimLeftSpace_def)
  let ?rs = "map rev spaceRunes"
  from w2 have rw: "runeText ?rs (rev w2)" unfolding whiteSpace_def by (rule runeText_rev)
  from ne have "\<forall>e\<in>set ?rs. \<not> prefix e (rev m)"
    by (auto simp add: endsWithSpace_iff suffix_to_prefix)
  with rw have "trimLeftRunes ?rs (rev w2 @ rev m) = rev m"
    using spaceRunes_nonempty by (intro trimLeftRunes_unique spaceRunes_suffix_free) auto
  then show ?thesis by (simp add: TrimSpace_def TrimRightSpace_def l)
qed

lemma dropWhile_rev_split: "d = rev (dropWhile f (rev d)) @ rev (takeWhile f (rev d))"
proof -
  have "rev (dropWhile f (rev d)) @ rev (takeWhile f (rev d))
          = rev (takeWhile f (rev d) @ dropWhile f (rev d))"
    by (simp only: rev_append)
  also have "\<dots> = rev (rev d)" by (simp only: takeWhile_dropWhile_id)
  finally show ?thesis by simp
qed

lemma TrimFunc_decomp:
  "s = takeWhile f s @ TrimFunc f s @ rev (takeWhile f (rev (dropWhile f s)))"
proof -
  have "s = takeWhile f s @ dropWhile f s" by simp
  also have "dropWhile f s = TrimFunc f s @ rev (takeWhile f (rev (dropWhile f s)))"
    unfolding TrimFunc_def by (rule dropWhile_rev_split)
  finally show ?thesis .
qed

lemma list_all_takeWhile: "list_all f (takeWhile f s)"
  by (induction s) auto

lemma TrimFunc_hd: "TrimFunc f s \<noteq> [] \<Longrightarrow> \<not> f (hd (TrimFunc f s))"
proof -
  assume ne: "TrimFunc f s \<noteq> []"
  let ?d = "dropWhile f s"
  have d: "?d = TrimFunc f s @ rev (takeWhile f (rev ?d))"
    unfolding TrimFunc_def by (rule dropWhile_rev_split)
  from ne have dne: "?d \<noteq> []" by (auto simp: TrimFunc_def dest: set_dropWhileD)
  then have "\<not> f (hd ?d)" by (rule hd_dropWhile)
  moreover from ne d have "hd ?d = hd (TrimFunc f s)" by (metis hd_append2)
  ultimately show ?thesis by simp
qed

lemma TrimFunc_last: "TrimFunc f s \<noteq> [] \<Longrightarrow> \<not> f (last (TrimFunc f s))"
proof -
  assume ne: "TrimFunc f s \<noteq> []"
  let ?x = "dropWhile f (rev (dropWhile f s))"
  from ne have "?x \<noteq> []" by (simp add: TrimFunc_def)
  then have "\<not> f (hd ?x)" by (rule hd_dropWhile)
  moreover have "last (TrimFunc f s) = hd ?x" using \<open>?x \<noteq> []\<close> by (simp add: TrimFunc_def last_rev)
  ultimately show ?thesis by simp
qed

lemma dropWhile_all: "list_all f a \<Longrightarrow> dropWhile f (a @ b) = dropWhile f b"
  by (induction a) auto

lemma dropWhile_hd: "m \<noteq> [] \<Longrightarrow> \<not> f (hd m) \<Longrightarrow> dropWhile f (m @ b) = m @ b"
  by (cases m) auto

lemma TrimFunc_unique:
  assumes s: "s = a @ m @ b" and a: "list_all f a" and b: "list_all f b"
    and m: "m = [] \<or> \<not> f (hd m) \<and> \<not> f (last m)"
  shows "TrimFunc f s = m"
proof (cases "m = []")
  case True
  from a b have "list_all f (a @ b)" by simp
  then have "dropWhile f ((a @ b) @ []) = dropWhile f []" by (rule dropWhile_all)
  then have e: "dropWhile f (a @ b) = []" by simp
  have "TrimFunc f (a @ b) = []" by (simp only: TrimFunc_def e) simp
  then show ?thesis using s True by simp
next
  case False
  with m have h: "\<not> f (hd m)" and l: "\<not> f (last m)" by auto
  have 1: "dropWhile f s = m @ b"
    using s a False h by (simp add: dropWhile_all dropWhile_hd)
  have rb: "list_all f (rev b)" using b by (simp add: list_all_iff)
  have rm: "rev m \<noteq> []" "\<not> f (hd (rev m))" using False l by (simp_all add: hd_rev)
  have "dropWhile f (rev (m @ b)) = dropWhile f (rev b @ rev m)" by simp
  also have "\<dots> = dropWhile f (rev m)" using rb by (rule dropWhile_all)
  also have "\<dots> = rev m" using dropWhile_hd [of "rev m" f "[]"] rm by simp
  finally show ?thesis by (simp add: TrimFunc_def 1)
qed

lemma TrimSpace_noop: "\<not> startsWithSpace s \<Longrightarrow> \<not> endsWithSpace s \<Longrightarrow> TrimSpace s = s"
  using TrimSpace_unique [of s "[]" s "[]"] by (simp add: whiteSpace_def runeText_Nil)

lemma quoted13_value:
  "ParseCommitMessage quoted13 = ''  '' @ [CHR 0x22] @ ''Add x'' @ [CHR 0x22] @ ''  ''"
proof -
  have "TrimSpace quoted13 = quoted13"
    by (rule TrimSpace_noop)
      (simp_all add: startsWithSpace_def endsWithSpace_def quoted13_def spaceRunes_def
        suffix_to_prefix)
  then show ?thesis
    by (simp add: ParseCommitMessage_def Trim_def TrimFunc_def)
      (simp add: quoted13_def quoteCutset_def)
qed

lemma two_layers_value:
  "ParseCommitMessage [CHR 0x22, CHR 0x27, CHR ''x'', CHR 0x27, CHR 0x22] = ''x''"
proof -
  have "TrimSpace [CHR 0x22, CHR 0x27, CHR ''x'', CHR 0x27, CHR 0x22]
      = [CHR 0x22, CHR 0x27, CHR ''x'', CHR 0x27, CHR 0x22]"
    by (rule TrimSpace_noop)
      (simp_all add: startsWithSpace_def endsWithSpace_def spaceRunes_def suffix_to_prefix)
  then show ?thesis
    by (simp add: ParseCommitMessage_def Trim_def TrimFunc_def quoteCutset_def)
qed

lemma commit_message_characterised:
  "r = ParseCommitMessage content \<longleftrightarrow>
     (\<exists>w1 q1 q2 w2. content = w1 @ (q1 @ r @ q2) @ w2
        \<and> whiteSpace w1 \<and> whiteSpace w2
        \<and> \<not> startsWithSpace (q1 @ r @ q2) \<and> \<not> endsWithSpace (q1 @ r @ q2)
        \<and> list_all (\<lambda>c. c \<in> set quoteCutset) q1 \<and> list_all (\<lambda>c. c \<in> set quoteCutset) q2
        \<and> (r = [] \<or> hd r \<notin> set quoteCutset \<and> last r \<notin> set quoteCutset))"
proof
  let ?q = "\<lambda>c. c \<in> set quoteCutset"
  let ?t = "TrimSpace content"
  assume r: "r = ParseCommitMessage content"
  from TrimSpace_decomp [of content] obtain w1 w2 where w:
    "content = w1 @ ?t @ w2" "whiteSpace w1" "whiteSpace w2"
    "\<not> startsWithSpace ?t" "\<not> endsWithSpace ?t"
    by blast
  have t: "?t = takeWhile ?q ?t @ r @ rev (takeWhile ?q (rev (dropWhile ?q ?t)))"
    unfolding r ParseCommitMessage_def Trim_def by (rule TrimFunc_decomp)
  have q1: "list_all ?q (takeWhile ?q ?t)" by (rule list_all_takeWhile)
  have q2: "list_all ?q (rev (takeWhile ?q (rev (dropWhile ?q ?t))))"
    using list_all_takeWhile [of ?q] by (simp add: list_all_iff)
  have e: "r = [] \<or> hd r \<notin> set quoteCutset \<and> last r \<notin> set quoteCutset"
    unfolding r ParseCommitMessage_def Trim_def
    using TrimFunc_hd [of ?q ?t] TrimFunc_last [of ?q ?t] by blast
  let ?q1 = "takeWhile ?q ?t" and ?q2 = "rev (takeWhile ?q (rev (dropWhile ?q ?t)))"
  have "content = w1 @ (?q1 @ r @ ?q2) @ w2" using w(1) t by simp
  moreover have "\<not> startsWithSpace (?q1 @ r @ ?q2)" "\<not> endsWithSpace (?q1 @ r @ ?q2)"
    using w(4,5) t by simp_all
  ultimately show "\<exists>w1 q1 q2 w2. content = w1 @ (q1 @ r @ q2) @ w2
        \<and> whiteSpace w1 \<and> whiteSpace w2
        \<and> \<not> startsWithSpace (q1 @ r @ q2) \<and> \<not> endsWithSpace (q1 @ r @ q2)
        \<and> list_all ?q q1 \<and> list_all ?q q2
        \<and> (r = [] \<or> hd r \<notin> set quoteCutset \<and> last r \<notin> set quoteCutset)"
    using w(2,3) q1 q2 e by blast
next
  assume "\<exists>w1 q1 q2 w2. content = w1 @ (q1 @ r @ q2) @ w2
        \<and> whiteSpace w1 \<and> whiteSpace w2
        \<and> \<not> startsWithSpace (q1 @ r @ q2) \<and> \<not> endsWithSpace (q1 @ r @ q2)
        \<and> list_all (\<lambda>c. c \<in> set quoteCutset) q1 \<and> list_all (\<lambda>c. c \<in> set quoteCutset) q2
        \<and> (r = [] \<or> hd r \<notin> set quoteCutset \<and> last r \<notin> set quoteCutset)"
  then obtain w1 q1 q2 w2 where d: "content = w1 @ (q1 @ r @ q2) @ w2"
    "whiteSpace w1" "whiteSpace w2"
    "\<not> startsWithSpace (q1 @ r @ q2)" "\<not> endsWithSpace (q1 @ r @ q2)"
    "list_all (\<lambda>c. c \<in> set quoteCutset) q1" "list_all (\<lambda>c. c \<in> set quoteCutset) q2"
    "r = [] \<or> hd r \<notin> set quoteCutset \<and> last r \<notin> set quoteCutset"
    by blast
  from d(1-5) have "TrimSpace content = q1 @ r @ q2" by (rule TrimSpace_unique)
  moreover have "TrimFunc (\<lambda>c. c \<in> set quoteCutset) (q1 @ r @ q2) = r"
    using refl d(6,7,8) by (rule TrimFunc_unique)
  ultimately show "r = ParseCommitMessage content"
    by (simp add: ParseCommitMessage_def Trim_def)
qed

text \<open>
  Claim C7, as stated, fails: on the 13-character string the result is not \<open>Add x\<close>. Only
  the outer single quotes go; the spaces they uncover stop the trimming, so the double
  quotes stay.
\<close>

theorem commit_message_quoted13_counterexample:
  "length quoted13 = 13
   \<and> ParseCommitMessage quoted13 = ''  '' @ [CHR 0x22] @ ''Add x'' @ [CHR 0x22] @ ''  ''
   \<and> ParseCommitMessage quoted13 \<noteq> ''Add x''"
  by (simp add: quoted13_value) (simp add: quoted13_def)

text \<open>
  Claim C7, amended. \<^verbatim>\<open>ParseCommitMessage\<close> trims all the surrounding white space (Unicode
  white space included) and then every leading and every trailing quote character, each
  end on its own. Its result is the one text \<open>r\<close> for which the input is white space,
  quotes, \<open>r\<close>, quotes, white space, where the part between the white space neither
  starts nor ends with white space and \<open>r\<close> neither begins nor ends with a quote
  character. So all layers of quotes go (two layers around \<open>x\<close> give \<open>x\<close>), and white
  space uncovered by the quotes is not trimmed again: the 13-character string gives two
  spaces, \<open>Add x\<close> in double quotes, two spaces.
\<close>

theorem commit_message_trims_space_then_quotes:
  "(r = ParseCommitMessage content \<longleftrightarrow>
     (\<exists>w1 q1 q2 w2. content = w1 @ (q1 @ r @ q2) @ w2
        \<and> whiteSpace w1 \<and> whiteSpace w2
        \<and> \<not> startsWithSpace (q1 @ r @ q2) \<and> \<not> endsWithSpace (q1 @ r @ q2)
        \<and> list_all (\<lambda>c. c \<in> set quoteCutset) q1 \<and> list_all (\<lambda>c. c \<in> set quoteCutset) q2
        \<and> (r = [] \<or> hd r \<notin> set quoteCutset \<and> last r \<notin> set quoteCutset)))
   \<and> ParseCommitMessage [CHR 0x22, CHR 0x27, CHR ''x'', CHR 0x27, CHR 0x22] = ''x''
   \<and> ParseCommitMessage quoted13 = ''  '' @ [CHR 0x22] @ ''Add x'' @ [CHR 0x22] @ ''  ''"
  using commit_message_characterised [of r content] two_layers_value quoted13_value
  by (simp only: simp_thms)

text \<open>
  A no-break space (U+00A0), \<open>Add x\<close> in double quotes and a line feed give \<open>Add x\<close>; the
  13-character string without its outer single quotes gives \<open>Add x\<close> as well.
\<close>

theorem commit_message_trims_witness:
  "ParseCommitMessage ([CHR 0xC2, CHR 0xA0, CHR 0x22] @ ''Add x'' @ [CHR 0x22, CHR 0x0A]) = ''Add x''
   \<and> ParseCommitMessage (''  '' @ [CHR 0x22] @ ''Add x'' @ [CHR 0x22] @ ''  '') = ''Add x''"
proof -
  have ws: "whiteSpace [CHR 0xC2, CHR 0xA0]" "whiteSpace [CHR 0x0A]" "whiteSpace ''  ''"
    unfolding whiteSpace_def
    using runeText_single [of "[CHR 0xC2, CHR 0xA0]" spaceRunes]
      runeText_single [of "[CHR 0x0A]" spaceRunes]
      runeText_App [OF _ runeText_single, of "'' ''" spaceRunes "'' ''"]
    by (simp_all add: spaceRunes_def)
  have mid: "\<not> startsWithSpace ([CHR 0x22] @ ''Add x'' @ [CHR 0x22])"
    "\<not> endsWithSpace ([CHR 0x22] @ ''Add x'' @ [CHR 0x22])"
    by (simp_all add: startsWithSpace_def endsWithSpace_def spaceRunes_def suffix_to_prefix)
  have q: "list_all (\<lambda>c. c \<in> set quoteCutset) [CHR 0x22]"
    "''Add x'' = [] \<or> hd ''Add x'' \<notin> set quoteCutset \<and> last ''Add x'' \<notin> set quoteCutset"
    by (simp_all add: quoteCutset_def)
  have 1: "\<exists>w1 q1 q2 w2.
      [CHR 0xC2, CHR 0xA0, CHR 0x22] @ ''Add x'' @ [CHR 0x22, CHR 0x0A] = w1 @ (q1 @ ''Add x'' @ q2) @ w2
      \<and> whiteSpace w1 \<and> whiteSpace w2
      \<and> \<not> startsWithSpace (q1 @ ''Add x'' @ q2) \<and> \<not> endsWithSpace (q1 @ ''Add x'' @ q2)
      \<and> list_all (\<lambda>c. c \<in> set quoteCutset) q1 \<and> list_all (\<lambda>c. c \<in> set quoteCutset) q2
      \<and> (''Add x'' = [] \<or> hd ''Add x'' \<notin> set quoteCutset \<and> last ''Add x'' \<notin> set quoteCutset)"
    apply (rule exI [of _ "[CHR 0xC2, CHR 0xA0]"])
    apply (rule exI [of _ "[CHR 0x22]"])
    apply (rule exI [of _ "[CHR 0x22]"])
    apply (rule exI [of _ "[CHR 0x0A]"])
    using ws mid q apply simp
    done
  have 2: "\<exists>w1 q1 q2 w2.
      ''  '' @ [CHR 0x22] @ ''Add x'' @ [CHR 0x22] @ ''  '' = w1 @ (q1 @ ''Add x'' @ q2) @ w2
      \<and> whiteSpace w1 \<and> whiteSpace w2
      \<and> \<not> startsWithSpace (q1 @ ''Add x'' @ q2) \<and> \<not> endsWithSpace (q1 @ ''Add x'' @ q2)
      \<and> list_all (\<lambda>c. c \<in> set quoteCutset) q1 \<and> list_all (\<lambda>c. c \<in> set quoteCutset) q2
      \<and> (''Add x'' = [] \<or> hd ''Add x'' \<notin> set quoteCutset \<and> last ''Add x'' \<notin> set quoteCutset)"
    apply (rule exI [of _ "''  ''"])
    apply (rule exI [of _ "[CHR 0x22]"])
    apply (rule exI [of _ "[CHR 0x22]"])
    apply (rule exI [of _ "''  ''"])
    using ws mid q apply simp
    done
  from 1 2 show ?thesis
    using commit_message_trims_space_then_quotes
        [of "''Add x''" "[CHR 0xC2, CHR 0xA0, CHR 0x22] @ ''Add x'' @ [CHR 0x22, CHR 0x0A]"]
      commit_message_trims_space_then_quotes
        [of "''Add x''" "''  '' @ [CHR 0x22] @ ''Add x'' @ [CHR 0x22] @ ''  ''"]
    by metis
qed

subsection \<open>The default branch\<close>

lemma scanRefs_eq:
  "scanRefs d refs =
     (if list_ex (\<lambda>n. Contains n ''origin/main'') refs then ''main''
      else if list_ex (\<lambda>n. Contains n ''origin/master'') refs then ''master''
      else d)"
  by (induction refs arbitrary: d) auto

text \<open>
  Claim C6, as stated, fails: with no local \<open>main\<close> or \<open>master\<close> and no configured remote,
  the reference \<open>refs/remotes/origin/main\<close> is never scanned and the resolution fails,
  although a name containing \<open>origin/main\<close> is there.
\<close>

theorem default_branch_no_remote_counterexample:
  "GetDefaultBranch (refsRepo [] [] [''refs/remotes/origin/main'']) = Inl noDefaultBranch
   \<and> References (refsRepo [] [] [''refs/remotes/origin/main'']) = Inr [''refs/remotes/origin/main'']
   \<and> Contains ''refs/remotes/origin/main'' ''origin/main''"
  by (simp add: GetDefaultBranch_def refsRepo_def NewBranchReferenceName_def HasPrefix_def)

text \<open>
  Claim C6, amended. The candidates are checked in a fixed order: the local branch \<open>main\<close>,
  then the local branch \<open>master\<close>; then, only when the repository has at least one
  configured remote and its references can be listed, a scan of all references in which a
  name containing \<open>origin/main\<close> wins wherever it stands and a name containing
  \<open>origin/master\<close> wins when no name contains \<open>origin/main\<close>. The resolution fails when
  none is found, and also when no remote is configured or the remotes or references cannot
  be listed. With a local \<open>main\<close> the result is \<open>main\<close>, whatever else exists.
\<close>

theorem default_branch_resolution_order:
  "(ReferenceByName r (NewBranchReferenceName ''main'') = Inr mainRef \<longrightarrow>
      GetDefaultBranch r = Inr ''main'')
   \<and> (ReferenceByName r (NewBranchReferenceName ''main'') = Inl e1
        \<and> ReferenceByName r (NewBranchReferenceName ''master'') = Inr masterRef \<longrightarrow>
      GetDefaultBranch r = Inr ''master'')
   \<and> (ReferenceByName r (NewBranchReferenceName ''main'') = Inl e1
        \<and> ReferenceByName r (NewBranchReferenceName ''master'') = Inl e2
        \<and> Remotes r = Inr remotes \<and> remotes \<noteq> [] \<and> References r = Inr refs \<longrightarrow>
      GetDefaultBranch r =
        (if list_ex (\<lambda>n. Contains n ''origin/main'') refs then Inr ''main''
         else if list_ex (\<lambda>n. Contains n ''origin/master'') refs then Inr ''master''
         else Inl noDefaultBranch))
   \<and> (ReferenceByName r (NewBranchReferenceName ''main'') = Inl e1
        \<and> ReferenceByName r (NewBranchReferenceName ''master'') = Inl e2
        \<and> (Remotes r = Inl e3 \<or> Remotes r = Inr [] \<or> References r = Inl e4) \<longrightarrow>
      GetDefaultBranch r = Inl noDefaultBranch)"
  by (auto simp add: GetDefaultBranch_def scanRefs_eq Let_def split: sum.splits)

theorem default_branch_resolution_witness:
  "GetDefaultBranch (refsRepo [''refs/heads/main''] [''origin'']
       [''refs/heads/main'', ''refs/remotes/origin/master'']) = Inr ''main''
   \<and> GetDefaultBranch (refsRepo [''refs/heads/master''] [''origin'']
       [''refs/heads/master'', ''refs/remotes/origin/main'']) = Inr ''master''
   \<and> GetDefaultBranch (refsRepo [] [''origin'']
       [''refs/remotes/origin/master'', ''refs/remotes/origin/main'']) = Inr ''main''
   \<and> GetDefaultBranch (refsRepo [] [''origin'']
       [''refs/heads/feature'', ''refs/remotes/origin/master'']) = Inr ''master''
   \<and> GetDefaultBranch (refsRepo [] [''origin''] [''refs/heads/feature'']) = Inl noDefaultBranch
   \<and> GetDefaultBranch (refsRepo [] [] [''refs/remotes/origin/master'']) = Inl noDefaultBranch"
  using
    default_branch_resolution_order
      [of "refsRepo [''refs/heads/main''] [''origin'']
             [''refs/heads/main'', ''refs/remotes/origin/master'']"
          "\<lparr>refName = ''refs/heads/main'', refHash = 1\<rparr>"]
    default_branch_resolution_order
      [of "refsRepo [''refs/heads/master''] [''origin'']
             [''refs/heads/master'', ''refs/remotes/origin/main'']"
          _ "''reference not found''" "\<lparr>refName = ''refs/heads/master'', refHash = 1\<rparr>"]
    default_branch_resolution_order
      [of "refsRepo [] [''origin''] [''refs/remotes/origin/master'', ''refs/remotes/origin/main'']"
          _ "''reference not found''" _ "''reference not found''" "[''origin'']"
          "[''refs/remotes/origin/master'', ''refs/remotes/origin/main'']"]
    default_branch_resolution_order
      [of "refsRepo [] [''origin''] [''refs/heads/feature'', ''refs/remotes/origin/master'']"
          _ "''reference not found''" _ "''reference not found''" "[''origin'']"
          "[''refs/heads/feature'', ''refs/remotes/origin/master'']"]
    default_branch_resolution_order
      [of "refsRepo [] [''origin''] [''refs/heads/feature'']"
          _ "''reference not found''" _ "''reference not found''" "[''origin'']"
          "[''refs/heads/feature'']"]
    default_branch_resolution_order
      [of "refsRepo [] [] [''refs/remotes/origin/master'']"
          _ "''reference not found''" _ "''reference not found''"]
  by (simp add: refsRepo_def NewBranchReferenceName_def HasPrefix_def)

subsection \<open>Commits ahead of the base\<close>

lemma length_hashString: "length (hashString h) = 40"
  by (simp add: hashString_def)

lemma forEachCommit_eq:
  "forEachCommit b cs iterErr acc =
     (if list_ex (\<lambda>c. Hash c = b) cs
      then (acc @ map commitInfo (takeWhile (\<lambda>c. Hash c \<noteq> b) cs), Some ''reached base'')
      else (acc @ map commitInfo cs, iterErr))"
  by (induction cs arbitrary: acc) auto

lemma shortHash_eq:
  "take 7 (hashString h) = map (\<lambda>i. hexDigit (unat (drop_bit (4 * (39 - i)) h))) [0..<7]"
  by (simp add: hashString_def take_map)

text \<open>
  Claim C2. Once HEAD and the base reference resolve and the log opens,
  \<^verbatim>\<open>GetCommitsAhead\<close> returns, in the order of the traversal, one entry per commit met
  before the commit whose hash is the base tip, the base tip left out; each entry holds the
  first 7 of the 40 hexadecimal digits of the hash and the first line of the message. When
  the traversal never meets the base tip, all visited commits are returned without error,
  also when the traversal fails after at least one commit. An error is returned only when
  no commit was collected and the traversal itself failed.
\<close>

theorem commits_ahead_stop_before_base:
  assumes "Head r = Inr head"
    and "baseReference r base = Inr baseRef"
    and "Log r (refHash head) = Inr (history, iterErr)"
  shows
    "(list_ex (\<lambda>c. Hash c = refHash baseRef) history \<longrightarrow>
        GetCommitsAhead r base =
          Inr (map commitInfo (takeWhile (\<lambda>c. Hash c \<noteq> refHash baseRef) history)))
     \<and> (\<not> list_ex (\<lambda>c. Hash c = refHash baseRef) history \<and> history \<noteq> [] \<longrightarrow>
        GetCommitsAhead r base = Inr (map commitInfo history))
     \<and> (\<not> list_ex (\<lambda>c. Hash c = refHash baseRef) history \<and> iterErr = None \<longrightarrow>
        GetCommitsAhead r base = Inr (map commitInfo history))
     \<and> (GetCommitsAhead r base = Inl e \<longrightarrow>
        history = [] \<and> iterErr = Some e \<and> e \<noteq> ''reached base'')
     \<and> (history = [] \<and> iterErr = Some e \<and> e \<noteq> ''reached base'' \<longrightarrow>
        GetCommitsAhead r base = Inl e)
     \<and> length (ciHash (commitInfo c)) = 7
     \<and> ciHash (commitInfo c) = take 7 (hashString (Hash c))
     \<and> ciMessage (commitInfo c) = takeWhile (\<lambda>x. x \<noteq> CHR 0x0A) (Message c)"
proof -
  have run: "GetCommitsAhead r base =
      (case forEachCommit (refHash baseRef) history iterErr [] of
         (commits, Some e) \<Rightarrow>
           if e \<noteq> ''reached base'' \<and> commits = [] then Inl e else Inr commits
       | (commits, None) \<Rightarrow> Inr commits)"
    using assms by (simp add: GetCommitsAhead_def)
  have reached: "list_ex (\<lambda>c. Hash c = refHash baseRef) history \<longrightarrow>
        GetCommitsAhead r base =
          Inr (map commitInfo (takeWhile (\<lambda>c. Hash c \<noteq> refHash baseRef) history))"
    by (simp add: run forEachCommit_eq)
  have visited: "\<not> list_ex (\<lambda>c. Hash c = refHash baseRef) history \<and> history \<noteq> [] \<longrightarrow>
        GetCommitsAhead r base = Inr (map commitInfo history)"
    by (simp add: run forEachCommit_eq split: option.splits)
  have ended: "\<not> list_ex (\<lambda>c. Hash c = refHash baseRef) history \<and> iterErr = None \<longrightarrow>
        GetCommitsAhead r base = Inr (map commitInfo history)"
    by (simp add: run forEachCommit_eq)
  have only: "GetCommitsAhead r base = Inl e \<longrightarrow>
        history = [] \<and> iterErr = Some e \<and> e \<noteq> ''reached base''"
    by (auto simp add: run forEachCommit_eq split: option.splits if_splits)
  have failed: "history = [] \<and> iterErr = Some e \<and> e \<noteq> ''reached base'' \<longrightarrow>
        GetCommitsAhead r base = Inl e"
    by (simp add: run)
  have short: "length (ciHash (commitInfo c)) = 7"
    by (simp add: commitInfo_def length_hashString)
  have line: "ciMessage (commitInfo c) = takeWhile (\<lambda>x. x \<noteq> CHR 0x0A) (Message c)"
    by (simp add: commitInfo_def hd_Split)
  have hash: "ciHash (commitInfo c) = take 7 (hashString (Hash c))"
    by (simp add: commitInfo_def)
  from reached visited ended only failed short line hash show ?thesis by blast
qed

lemma upt7: "[0..<7] = [0, 1, 2, 3, 4, 5, 6::nat]"
  by (simp add: upt_rec)

lemma exHistory_short_hashes:
  "take 7 (hashString 0x3333333333333333333333333333333333333333) = ''3333333''"
  "take 7 (hashString 0x2222222222222222222222222222222222222222) = ''2222222''"
  "take 7 (hashString 0x1111111111111111111111111111111111111111) = ''1111111''"
  unfolding shortHash_eq upt7
  by (simp_all add: hexDigit_def drop_bit_eq_div unat_div)

lemma exHistory_take3:
  "take 3 exHistory =
     [exCommit 0x3333333333333333333333333333333333333333 (''Add parser'' @ nl @ nl @ ''Details.''),
      exCommit 0x2222222222222222222222222222222222222222 ''Fix typo'',
      exCommit 0x1111111111111111111111111111111111111111 ''Start feature'']"
  by (simp add: exHistory_def)

lemma commitInfo_examples:
  "map commitInfo (take 3 exHistory) =
     [\<lparr>ciHash = ''3333333'', ciMessage = ''Add parser''\<rparr>,
      \<lparr>ciHash = ''2222222'', ciMessage = ''Fix typo''\<rparr>,
      \<lparr>ciHash = ''1111111'', ciMessage = ''Start feature''\<rparr>]"
  unfolding exHistory_take3
  by (simp add: exCommit_def commitInfo_def exHistory_short_hashes hd_Split nl_def)

theorem commits_ahead_witness:
  "GetCommitsAhead (historyRepo exHistory None) ''main'' =
     Inr [\<lparr>ciHash = ''3333333'', ciMessage = ''Add parser''\<rparr>,
          \<lparr>ciHash = ''2222222'', ciMessage = ''Fix typo''\<rparr>,
          \<lparr>ciHash = ''1111111'', ciMessage = ''Start feature''\<rparr>]
   \<and> GetCommitsAhead (historyRepo (take 3 exHistory) (Some ''object not found'')) ''main'' =
     Inr [\<lparr>ciHash = ''3333333'', ciMessage = ''Add parser''\<rparr>,
          \<lparr>ciHash = ''2222222'', ciMessage = ''Fix typo''\<rparr>,
          \<lparr>ciHash = ''1111111'', ciMessage = ''Start feature''\<rparr>]
   \<and> GetCommitsAhead (historyRepo [] (Some ''object not found'')) ''main'' =
     Inl ''object not found''"
proof -
  let ?head = "\<lparr>refName = ''refs/heads/feature'',
                 refHash = 0x3333333333333333333333333333333333333333 :: hash\<rparr>"
  let ?base = "\<lparr>refName = ''refs/heads/main'',
                 refHash = 0xbbbbbbbbbbbbbbbbbbbbbbbbbbbbbbbbbbbbbbbb :: hash\<rparr>"
  have h: "Head (historyRepo hs ie) = Inr ?head" for hs ie
    by (simp add: historyRepo_def)
  have b: "baseReference (historyRepo hs ie) ''main'' = Inr ?base" for hs ie
    by (simp add: historyRepo_def baseReference_def NewBranchReferenceName_def)
  have l: "Log (historyRepo hs ie) (refHash ?head) = Inr (hs, ie)" for hs ie
    by (simp add: historyRepo_def)
  have tw: "takeWhile (\<lambda>c. Hash c \<noteq> refHash ?base) exHistory = take 3 exHistory"
    by (simp add: exHistory_def exCommit_def)
  have ex: "list_ex (\<lambda>c. Hash c = refHash ?base) exHistory"
    by (simp add: exHistory_def exCommit_def)
  have nex: "\<not> list_ex (\<lambda>c. Hash c = refHash ?base) (take 3 exHistory)"
    unfolding exHistory_take3 by (simp add: exCommit_def)
  have ne: "take 3 exHistory \<noteq> []"
    unfolding exHistory_take3 by simp
  have 1: "GetCommitsAhead (historyRepo exHistory None) ''main'' =
      Inr (map commitInfo (take 3 exHistory))"
    using commits_ahead_stop_before_base [OF h b l, of exHistory None] ex tw by simp
  have 2: "GetCommitsAhead (historyRepo (take 3 exHistory) (Some ''object not found'')) ''main'' =
      Inr (map commitInfo (take 3 exHistory))"
    using commits_ahead_stop_before_base
      [OF h b l, of "take 3 exHistory" "Some ''object not found''"] nex ne
    by blast
  have 3: "GetCommitsAhead (historyRepo [] (Some ''object not found'')) ''main'' =
      Inl ''object not found''"
    using commits_ahead_stop_before_base
      [OF h b l, of "[]" "Some ''object not found''" "''object not found''"]
    by simp
  from 1 2 3 show ?thesis by (simp only: commitInfo_examples simp_thms)
qed

subsection \<open>Cancelling\<close>

lemma ConfirmCommit_cancel:
  "SelectChoice w = Inr ''cancel'' \<Longrightarrow>
   ConfirmCommit w message = Inr \<lparr>crAction = ActionCancel, crMessage = message\<rparr>"
  by (simp add: ConfirmCommit_def)

lemma ConfirmPR_cancel:
  "SelectChoice w = Inr ''cancel'' \<Longrightarrow>
   ConfirmPR w title description =
     Inr \<lparr>prAction = ActionCancel, prTitle = title, prDescription = description\<rparr>"
  by (simp add: ConfirmPR_def)

lemma runCommit_cancel:
  assumes "SelectChoice w = Inr ''cancel''"
  shows "list_all (\<lambda>ev. \<not> mutating ev) (fst (runCommit w))"
    and "snd (runCommit w) = None \<longrightarrow>
         fst (runCommit w) = [ShowInfo ''Analyzing staged changes...'', ShowInfo ''Commit cancelled.'']"
  by (simp_all add: runCommit_def ConfirmCommit_cancel [OF assms] mutating_def Let_def
      split: option.splits sum.splits)

lemma runPR_cancel:
  assumes "SelectChoice w = Inr ''cancel''"
  shows "list_all (\<lambda>ev. \<not> mutating ev) (fst (runPR w))"
    and "snd (runPR w) = None \<longrightarrow>
         (\<exists>info1 info2. fst (runPR w) = [ShowInfo info1, ShowInfo info2, ShowInfo ''PR creation cancelled.''])"
  by (simp_all add: runPR_def ConfirmPR_cancel [OF assms] mutating_def Let_def
      split: option.splits sum.splits)

text \<open>
  Claim C9. When the user selects Cancel, the confirmation resolves with the action Cancel
  and the original payload, and the run of \<^verbatim>\<open>runCommit\<close> or \<^verbatim>\<open>runPR\<close> calls none of
  \<^verbatim>\<open>repo.Commit\<close>, \<^verbatim>\<open>repo.Push\<close>, \<^verbatim>\<open>CreatePR\<close>, whatever the payload and the rest of the
  world are; a run that returns no error ends with the message that it was cancelled.
\<close>

theorem cancel_invokes_no_mutation:
  assumes "SelectChoice w = Inr ''cancel''"
  shows
    "ConfirmCommit w message = Inr \<lparr>crAction = ActionCancel, crMessage = message\<rparr>
     \<and> ConfirmPR w title description =
         Inr \<lparr>prAction = ActionCancel, prTitle = title, prDescription = description\<rparr>
     \<and> list_all (\<lambda>ev. \<not> mutating ev) (fst (runCommit w))
     \<and> list_all (\<lambda>ev. \<not> mutating ev) (fst (runPR w))
     \<and> (snd (runCommit w) = None \<longrightarrow>
          fst (runCommit w) =
            [ShowInfo ''Analyzing staged changes...'', ShowInfo ''Commit cancelled.''])
     \<and> (snd (runPR w) = None \<longrightarrow>
          (\<exists>info1 info2. fst (runPR w) =
            [ShowInfo info1, ShowInfo info2, ShowInfo ''PR creation cancelled.'']))"
  using ConfirmCommit_cancel [OF assms] ConfirmPR_cancel [OF assms]
    runCommit_cancel [OF assms] runPR_cancel [OF assms]
  by blast

lemma exRepo_staged:
  "HasStagedChanges (exRepo Modified) = Inr True"
  "GetStagedDiff (exRepo Modified) =
     Inr (''diff --git a/f b/f'' @ nl @ ''--- a/f'' @ nl @ ''+++ b/f'' @ nl @
          ''-c'' @ nl @ ''+d'' @ nl @ nl)"
  by (simp_all add: HasStagedChanges_def GetStagedDiff_def exRepo_def stagedBlocks_def
      headTreeOf_def fileBlock_def exTree_def exEntries_def indexContent_def contentsOf_def
      formatSimpleDiff_eq presenceSetDiff_def nl_def Split_def)

lemma runCommit_exWorld_cancel:
  "runCommit (exWorld (exRepo Modified) ''Update f'' ''cancel'') =
     ([ShowInfo ''Analyzing staged changes...'', ShowInfo ''Commit cancelled.''], None)"
  by (simp add: runCommit_def exWorld_def exRepo_staged checkOpenAIKey_def llmNewClient_def
      GenerateCommitMessage_def ConfirmCommit_def nl_def)

lemma Update_f_value: "ParseCommitMessage ''Update f'' = ''Update f''"
  using commit_message_characterised [of "''Update f''" "''Update f''"]
  by (auto simp add: whiteSpace_def runeText_Nil startsWithSpace_def endsWithSpace_def
      spaceRunes_def suffix_to_prefix quoteCutset_def
      intro!: exI [of _ "[]"])

lemma runCommit_exWorld_accept:
  "runCommit (exWorld (exRepo Modified) ''Update f'' ''accept'') =
     ([ShowInfo ''Analyzing staged changes...'', CallCommit ''Update f'',
       ShowSuccess ''Committed: abc1234''], None)"
  by (simp add: runCommit_def exWorld_def exRepo_staged checkOpenAIKey_def llmNewClient_def
      GenerateCommitMessage_def ConfirmCommit_def nl_def Update_f_value)

lemma historyRepo_branches:
  "GetCurrentBranch (historyRepo hs ie) = Inr ''feature''"
  "GetDefaultBranch (historyRepo hs ie) = Inr ''main''"
  "NeedsPush (historyRepo hs ie) = Inr True"
  by (simp_all add: GetCurrentBranch_def GetDefaultBranch_def NeedsPush_def historyRepo_def
      IsBranch_def Short_def HasPrefix_def NewBranchReferenceName_def
      NewRemoteReferenceName_def)

lemma historyRepo_commits:
  "GetCommitsAhead (historyRepo exHistory None) ''main'' =
     Inr [\<lparr>ciHash = ''3333333'', ciMessage = ''Add parser''\<rparr>,
          \<lparr>ciHash = ''2222222'', ciMessage = ''Fix typo''\<rparr>,
          \<lparr>ciHash = ''1111111'', ciMessage = ''Start feature''\<rparr>]"
proof -
  have "forEachCommit 0xbbbbbbbbbbbbbbbbbbbbbbbbbbbbbbbbbbbbbbbb exHistory None [] =
      (map commitInfo (take 3 exHistory), Some ''reached base'')"
    by (simp add: exHistory_def exCommit_def)
  then show ?thesis
    by (simp add: GetCommitsAhead_def historyRepo_def baseReference_def
        NewBranchReferenceName_def commitInfo_examples)
qed

lemma acme_widgets_ssh:
  "ParseRemoteURL ''git@github.com:acme/widgets.git'' = Inr \<lparr>Owner = ''acme'', Name = ''widgets''\<rparr>"
  by code_simp

lemma parse_title_only:
  "parsePRContent ''Title: Add parser'' = \<lparr>Title = ''Add parser'', Description = []\<rparr>"
  by code_simp

lemma showNat_3: "showNat (Suc (Suc (Suc 0))) = ''3''"
  by (simp add: showNat.simps [of "Suc (Suc (Suc 0))"])

lemma runPR_exWorld_cancel:
  "runPR (exWorld (historyRepo exHistory None) ''Title: Add parser'' ''cancel'') =
     ([ShowInfo ''Analyzing branch 'feature' against 'main'...'',
       ShowInfo ''Found 3 commit(s) ahead of main'',
       ShowInfo ''PR creation cancelled.''], None)"
  by (simp add: runPR_def exWorld_def historyRepo_branches historyRepo_commits
      checkOpenAIKey_def checkGitHubToken_def llmNewClient_def acme_widgets_ssh
      GeneratePRContent_def parse_title_only ConfirmPR_def showNat_3)

lemma runPR_exWorld_accept:
  "runPR (exWorld (historyRepo exHistory None) ''Title: Add parser'' ''accept'') =
     ([ShowInfo ''Analyzing branch 'feature' against 'main'...'',
       ShowInfo ''Found 3 commit(s) ahead of main'',
       ShowInfo ''Pushing branch to origin...'', CallPush,
       ShowInfo ''Creating pull request...'',
       CallCreatePR ''acme'' ''widgets'' ''main'' ''feature'' ''Add parser'' [],
       ShowSuccess ''PR created: https://github.com/acme/widgets/pull/1''], None)"
  by (simp add: runPR_def exWorld_def historyRepo_branches historyRepo_commits
      checkOpenAIKey_def checkGitHubToken_def llmNewClient_def githubNewClient_def
      acme_widgets_ssh GeneratePRContent_def parse_title_only ConfirmPR_def showNat_3
      pushAndCreate_def)

theorem cancel_invokes_no_mutation_witness:
  "SelectChoice (exWorld (exRepo Modified) ''Update f'' ''cancel'') = Inr ''cancel''
   \<and> runCommit (exWorld (exRepo Modified) ''Update f'' ''cancel'') =
       ([ShowInfo ''Analyzing staged changes...'', ShowInfo ''Commit cancelled.''], None)
   \<and> list_all (\<lambda>ev. \<not> mutating ev)
         (fst (runCommit (exWorld (exRepo Modified) ''Update f'' ''cancel'')))
   \<and> runPR (exWorld (historyRepo exHistory None) ''Title: Add parser'' ''cancel'') =
       ([ShowInfo ''Analyzing branch 'feature' against 'main'...'',
         ShowInfo ''Found 3 commit(s) ahead of main'',
         ShowInfo ''PR creation cancelled.''], None)
   \<and> list_all (\<lambda>ev. \<not> mutating ev)
         (fst (runPR (exWorld (historyRepo exHistory None) ''Title: Add parser'' ''cancel'')))
   \<and> list_ex mutating (fst (runCommit (exWorld (exRepo Modified) ''Update f'' ''accept'')))
   \<and> list_ex mutating
         (fst (runPR (exWorld (historyRepo exHistory None) ''Title: Add parser'' ''accept'')))"
proof -
  have c: "SelectChoice (exWorld repo reply ''cancel'') = Inr ''cancel''" for repo reply
    by (simp add: exWorld_def)
  have a: "list_ex mutating (fst (runCommit (exWorld (exRepo Modified) ''Update f'' ''accept'')))"
    by (simp add: runCommit_exWorld_accept mutating_def)
  have b: "list_ex mutating
      (fst (runPR (exWorld (historyRepo exHistory None) ''Title: Add parser'' ''accept'')))"
    by (simp add: runPR_exWorld_accept mutating_def)
  show ?thesis
    using cancel_invokes_no_mutation [OF c, of "exRepo Modified" "''Update f''"]
      cancel_invokes_no_mutation [OF c, of "historyRepo exHistory None" "''Title: Add parser''"]
      c a b runCommit_exWorld_cancel runPR_exWorld_cancel
    by simp
qed

subsection \<open>Added files\<close>

lemma Split_line:
  "CHR 0x0A \<notin> set l \<Longrightarrow> Split (l @ CHR 0x0A # rest) = l # Split rest"
  by (induction l) (auto simp add: Split_Cons)

lemma Split_lines:
  "\<forall>l\<in>set ls. CHR 0x0A \<notin> set l \<Longrightarrow>
   Split (concat (map (\<lambda>l. l @ nl) ls) @ rest) = ls @ Split rest"
  by (induction ls) (simp_all add: nl_def Split_line)

lemma Split_no_newline: "l \<in> set (Split s) \<Longrightarrow> CHR 0x0A \<notin> set l"
proof (induction s arbitrary: l)
  case Nil
  then show ?case by (simp add: Split_Nil)
next
  case (Cons c cs)
  show ?case
  proof (cases "c = CHR 0x0A")
    case True
    with Cons show ?thesis by (auto simp add: Split_Cons)
  next
    case False
    have hd: "hd (Split cs) \<in> set (Split cs)" using Split_not_Nil [of cs] by simp
    have tl: "set (tl (Split cs)) \<subseteq> set (Split cs)"
      using Split_not_Nil [of cs] by (cases "Split cs") auto
    from Cons.prems False have "l = c # hd (Split cs) \<or> l \<in> set (tl (Split cs))"
      by (simp add: Split_Cons)
    with Cons.IH hd tl False show ?thesis by auto
  qed
qed

lemma prefixLines_eq: "prefixLines sign ls = concat (map (\<lambda>l. (sign # l) @ nl) ls)"
proof -
  have "foldl (\<lambda>b line. b @ (sign # line @ nl)) acc ls
      = acc @ concat (map (\<lambda>l. (sign # l) @ nl) ls)" for acc
    by (induction ls arbitrary: acc) simp_all
  then show ?thesis by (simp add: prefixLines_def)
qed

lemma fileBlock_Added:
  "fileBlock r headTree entries filePath Added =
     concat (map (\<lambda>l. l @ nl)
       ([''diff --git a/'' @ filePath @ '' b/'' @ filePath, ''new file'']
        @ addedLines r entries filePath @ [[]]))"
  by (simp add: fileBlock_def addedLines_def prefixLines_eq comp_def split: option.splits)

lemma stagedBlocks_foldl:
  "foldl (\<lambda>diffBuilder (filePath, fileStatus).
            if Staging fileStatus = Unmodified \<or> Staging fileStatus = Untracked then diffBuilder
            else diffBuilder @ fileBlock r headTree entries filePath (Staging fileStatus))
         acc status
   = acc @ concat (map (\<lambda>(filePath, fileStatus).
            if Staging fileStatus = Unmodified \<or> Staging fileStatus = Untracked then []
            else fileBlock r headTree entries filePath (Staging fileStatus)) status)"
  by (induction status arbitrary: acc) (simp_all add: case_prod_beta)

lemma concat_lines_blocks:
  "concat (map (\<lambda>l. l @ nl) (concat (map B xs)))
     = concat (map (\<lambda>x. concat (map (\<lambda>l. l @ nl) (B x))) xs)"
  by (induction xs) simp_all

lemma stagedBlocks_Added:
  assumes "\<forall>(filePath, fileStatus)\<in>set status.
      Staging fileStatus = Added \<or> Staging fileStatus = Unmodified \<or> Staging fileStatus = Untracked"
  shows "stagedBlocks r headTree entries status =
     concat (map (\<lambda>l. l @ nl) (concat (map (blockLines r entries) status)))"
proof -
  have "map (\<lambda>(filePath, fileStatus).
            if Staging fileStatus = Unmodified \<or> Staging fileStatus = Untracked then []
            else fileBlock r headTree entries filePath (Staging fileStatus)) status
      = map (\<lambda>x. concat (map (\<lambda>l. l @ nl) (blockLines r entries x))) status"
  proof (rule map_cong [OF refl])
    fix x assume "x \<in> set status"
    with assms show "(case x of (filePath, fileStatus) \<Rightarrow>
            if Staging fileStatus = Unmodified \<or> Staging fileStatus = Untracked then []
            else fileBlock r headTree entries filePath (Staging fileStatus))
        = concat (map (\<lambda>l. l @ nl) (blockLines r entries x))"
      by (cases x) (auto simp add: blockLines_def fileBlock_Added)
  qed
  then show ?thesis
    by (simp only: stagedBlocks_def stagedBlocks_foldl concat_lines_blocks append_Nil)
qed

lemma blockLines_no_newline:
  assumes "CHR 0x0A \<notin> set (fst x)" and "l \<in> set (blockLines r entries x)"
  shows "CHR 0x0A \<notin> set l"
  using assms
  by (cases x)
    (auto simp add: blockLines_def addedLines_def split: if_splits option.splits
      dest: Split_no_newline)

lemma blockLines_plus:
  "filter (\<lambda>l. HasPrefix l ''+'') (blockLines r entries x) =
     (if Staging (snd x) = Added then addedLines r entries (fst x) else [])"
proof -
  have "filter (\<lambda>l. HasPrefix l ''+'') (addedLines r entries p) = addedLines r entries p" for p
    by (auto simp add: addedLines_def HasPrefix_def filter_id_conv split: option.splits)
  then show ?thesis
    by (cases x) (simp add: blockLines_def HasPrefix_def)
qed

lemma blockLines_minus:
  "filter (\<lambda>l. HasPrefix l ''-'') (blockLines r entries x) = []"
proof -
  have "filter (\<lambda>l. HasPrefix l ''-'') (addedLines r entries p) = []" for p
    by (auto simp add: addedLines_def HasPrefix_def filter_empty_conv split: option.splits)
  then show ?thesis
    by (cases x) (simp add: blockLines_def HasPrefix_def)
qed

lemma exRepo_index: "indexContent (exRepo staging) exEntries ''f'' = Some (''a'' @ nl @ ''b'' @ nl @ ''d'')"
  by (simp add: indexContent_def exRepo_def exEntries_def)

lemma exRepo_added_doc: "GetStagedDiff (exRepo Added) = Inr exAddedDoc"
  by (simp add: GetStagedDiff_def exRepo_def stagedBlocks_def fileBlock_def exEntries_def
      indexContent_def prefixLines_def exAddedDoc_def nl_def Split_def)

lemma exAddedDoc_lines:
  "Split exAddedDoc =
     [''diff --git a/f b/f'', ''new file'', ''+++ b/f'', ''+a'', ''+b'', ''+d'', [], []]"
  by (simp add: exAddedDoc_def nl_def Split_def)

text \<open>
  Claim C5, as stated, fails: for the one Added file \<open>f\<close> with the three lines a, b, d the
  document has four lines that begin with \<open>+\<close>, since the path line \<open>+++ b/f\<close> is one.
\<close>

theorem added_file_header_counterexample:
  "GetStagedDiff (exRepo Added) = Inr exAddedDoc
   \<and> indexContent (exRepo Added) exEntries ''f'' = Some (''a'' @ nl @ ''b'' @ nl @ ''d'')
   \<and> length (Split (''a'' @ nl @ ''b'' @ nl @ ''d'')) = 3
   \<and> plusLines exAddedDoc = [''+++ b/f'', ''+a'', ''+b'', ''+d'']
   \<and> length (plusLines exAddedDoc) \<noteq> length (Split (''a'' @ nl @ ''b'' @ nl @ ''d''))"
proof -
  have "Split (''a'' @ nl @ ''b'' @ nl @ ''d'') = [''a'', ''b'', ''d'']"
    by (simp add: nl_def Split_def)
  moreover have "plusLines exAddedDoc = [''+++ b/f'', ''+a'', ''+b'', ''+d'']"
    by (simp add: plusLines_def exAddedDoc_lines HasPrefix_def)
  ultimately show ?thesis by (simp add: exRepo_added_doc exRepo_index)
qed

text \<open>
  Claim C5, amended. When every staged entry is Added and no path holds a line feed, the
  lines of the document that begin with \<open>+\<close> are, file by file in the order of the status,
  the path line \<open>+++ b/path\<close> followed by exactly one line per line of the file's content
  (the pieces of \<^verbatim>\<open>strings.Split\<close> at the line feeds), each the content line prefixed
  \<open>+\<close>; a file whose content cannot be read from the index gives none. No line of the
  document begins with \<open>-\<close>.
\<close>

theorem added_files_plus_lines:
  assumes "Worktree r = Inr u" and "Status r = Inr status" and "Index r = Inr entries"
    and staged: "\<forall>(filePath, fileStatus)\<in>set status.
      Staging fileStatus = Added \<or> Staging fileStatus = Unmodified \<or> Staging fileStatus = Untracked"
    and paths: "\<forall>(filePath, fileStatus)\<in>set status. CHR 0x0A \<notin> set filePath"
  shows "\<exists>doc. GetStagedDiff r = Inr doc
     \<and> plusLines doc =
         concat (map (\<lambda>(filePath, fileStatus).
           if Staging fileStatus = Added then addedLines r entries filePath else []) status)
     \<and> minusLines doc = []"
proof -
  let ?ls = "concat (map (blockLines r entries) status)"
  let ?doc = "concat (map (\<lambda>l. l @ nl) ?ls)"
  have doc: "GetStagedDiff r = Inr ?doc"
    using assms(1-3) stagedBlocks_Added [OF staged] by (simp add: GetStagedDiff_def)
  have "\<forall>l\<in>set ?ls. CHR 0x0A \<notin> set l"
    using paths blockLines_no_newline by fastforce
  then have "Split (?doc @ []) = ?ls @ Split []" by (rule Split_lines)
  then have sp: "Split ?doc = ?ls @ [[]]" by (simp add: Split_Nil)
  have "plusLines ?doc = concat (map (\<lambda>x. filter (\<lambda>l. HasPrefix l ''+'') (blockLines r entries x)) status)"
    by (simp add: plusLines_def sp filter_concat comp_def HasPrefix_def)
  then have p: "plusLines ?doc =
         concat (map (\<lambda>(filePath, fileStatus).
           if Staging fileStatus = Added then addedLines r entries filePath else []) status)"
    by (simp add: blockLines_plus case_prod_unfold)
  have "minusLines ?doc = concat (map (\<lambda>x. filter (\<lambda>l. HasPrefix l ''-'') (blockLines r entries x)) status)"
    by (simp add: minusLines_def sp filter_concat comp_def HasPrefix_def)
  then have m: "minusLines ?doc = []"
    by (simp add: blockLines_minus)
  from doc p m show ?thesis by blast
qed

theorem added_files_plus_lines_witness:
  "GetStagedDiff (exRepo Added) = Inr exAddedDoc
   \<and> plusLines exAddedDoc = [''+++ b/f'', ''+a'', ''+b'', ''+d'']
   \<and> minusLines exAddedDoc = []"
proof -
  have s: "Split (''a'' @ nl @ ''b'' @ nl @ ''d'') = [''a'', ''b'', ''d'']"
    by (simp add: nl_def Split_def)
  have h: "Worktree (exRepo Added) = Inr ()"
    "Status (exRepo Added) = Inr [(''f'', \<lparr>Staging = Added, WorktreeCode = Unmodified\<rparr>)]"
    "Index (exRepo Added) = Inr exEntries"
    by (simp_all add: exRepo_def)
  have a: "\<forall>(filePath, fileStatus)\<in>set [(''f'', \<lparr>Staging = Added, WorktreeCode = Unmodified\<rparr>)].
      Staging fileStatus = Added \<or> Staging fileStatus = Unmodified \<or> Staging fileStatus = Untracked"
    by simp
  have p: "\<forall>(filePath, fileStatus)\<in>set [(''f'', \<lparr>Staging = Added, WorktreeCode = Unmodified\<rparr>)].
      CHR 0x0A \<notin> set filePath"
    by simp
  from added_files_plus_lines [OF h a p] show ?thesis
    by (simp add: exRepo_added_doc addedLines_def exRepo_index) (simp add: nl_def Split_def)
qed

subsection \<open>The title of a pull request\<close>













text \<open>
  Claim C4, evaluated where the code breaks it. A first line that begins with \<open>TITLE:\<close> is
  taken as the title line, since the test lowers the case, but only the spellings
  \<open>Title:\<close> and \<open>title:\<close> are stripped: the marker stays in the title. With \<open>Title:\<close> and
  \<open>title:\<close> the marker goes, and what follows the line is the description.
\<close>

theorem uppercase_title_marker_is_kept:
  "parsePRContent (''TITLE: Fix bug'' @ nl @ nl @ ''Description:'' @ nl @ ''Fixes it.'')
     = \<lparr>Title = ''TITLE: Fix bug'', Description = ''Fixes it.''\<rparr>
   \<and> parsePRContent ''TITLE: Fix bug'' = \<lparr>Title = ''TITLE: Fix bug'', Description = []\<rparr>
   \<and> parsePRContent (''Title: Fix bug'' @ nl @ nl @ ''Description:'' @ nl @ ''Fixes it.'')
     = \<lparr>Title = ''Fix bug'', Description = ''Fixes it.''\<rparr>
   \<and> parsePRContent (''title: Fix bug'' @ nl @ nl @ ''Description:'' @ nl @ ''Fixes it.'')
     = \<lparr>Title = ''Fix bug'', Description = ''Fixes it.''\<rparr>"
  by code_simp

subsection \<open>Remote URLs\<close>

lemma take_run:
  assumes "1 \<le> k" and "k \<le> length (takeWhile P s)"
  shows "take k s \<noteq> [] \<and> list_all P (take k s)"
proof -
  have le: "length (takeWhile P s) \<le> length s" by (rule length_takeWhile_le)
  with assms have ne: "take k s \<noteq> []" by auto
  have "take k s = take k (takeWhile P s @ dropWhile P s)" by simp
  also have "\<dots> = take k (takeWhile P s)" using assms(2) by (simp only: take_append) simp
  finally have "set (take k s) \<subseteq> set (takeWhile P s)" by (simp add: set_take_subset)
  then have "list_all P (take k s)" by (auto simp add: list_all_iff dest: set_takeWhileD)
  with ne show ?thesis by simp
qed

lemma plusGreedy_member:
  assumes "(a, b) \<in> set (plusGreedy P s)"
  shows "s = a @ b \<and> a \<noteq> [] \<and> list_all P a"
proof -
  from assms obtain k where "a = take k s" "b = drop k s" "1 \<le> k" "k \<le> length (takeWhile P s)"
    unfolding plusGreedy_def by auto
  then show ?thesis using take_run [of k P s] by simp
qed

lemma plusLazy_member:
  assumes "(a, b) \<in> set (plusLazy P s)"
  shows "s = a @ b \<and> a \<noteq> [] \<and> list_all P a"
proof -
  from assms obtain k where "a = take k s" "b = drop k s" "1 \<le> k" "k \<le> length (takeWhile P s)"
    unfolding plusLazy_def by auto
  then show ?thesis using take_run [of k P s] by simp
qed

lemma lit_member: "t \<in> set (lit p s) \<longleftrightarrow> s = p @ t"
proof
  assume "t \<in> set (lit p s)"
  then have "take (length p) s = p" "t = drop (length p) s"
    by (auto simp add: lit_def HasPrefix_def split: if_splits)
  then show "s = p @ t" by (metis append_take_drop_id)
next
  assume "s = p @ t"
  then show "t \<in> set (lit p s)" by (simp add: lit_def HasPrefix_def)
qed

lemma optGreedy_member: "t \<in> set (optGreedy p s) \<longleftrightarrow> s = p @ t \<or> s = t"
  by (auto simp add: optGreedy_def lit_member)

lemma oneOf_member: "t \<in> set (oneOf P s) \<longleftrightarrow> (\<exists>c. P c \<and> s = c # t)"
  by (cases s) (auto simp add: oneOf_def)

lemma ownerRepo_set:
  "set (ownerRepo s) =
     {(owner, name). \<exists>s1 s2 s3.
        (owner, s1) \<in> set (plusGreedy notSlash s) \<and> s2 \<in> set (lit ''/'' s1)
        \<and> (name, s3) \<in> set (plusLazy notSlash s2) \<and> [] \<in> set (optGreedy ''.git'' s3)}"
proof -
  have inner: "set (concat (map (\<lambda>s4. if s4 = [] then [(owner, name)] else []) xs))
      = (if [] \<in> set xs then {(owner, name)} else {})" for owner name :: string and xs
    by (induction xs) auto
  show ?thesis
    unfolding ownerRepo_def
    by (simp only: set_concat set_map inner) (auto split: if_splits, blast+)
qed

lemma plus_intro:
  assumes "a \<noteq> []" and "list_all P a"
  shows "(a, b) \<in> set (plusGreedy P (a @ b))" and "(a, b) \<in> set (plusLazy P (a @ b))"
proof -
  have "takeWhile P (a @ b) = a @ takeWhile P b"
    using assms(2) by (simp add: list_all_iff)
  then have k: "1 \<le> length a" "length a \<le> length (takeWhile P (a @ b))"
    using assms(1) by (auto simp add: Suc_le_eq)
  then have "length a \<in> set [1..<Suc (length (takeWhile P (a @ b)))]" by auto
  moreover have "(a, b) = (take (length a) (a @ b), drop (length a) (a @ b))" by simp
  ultimately show "(a, b) \<in> set (plusGreedy P (a @ b))" "(a, b) \<in> set (plusLazy P (a @ b))"
    unfolding plusGreedy_def plusLazy_def by (metis (no_types, lifting) image_eqI set_map set_rev)+
qed

lemma ownerRepo_member:
  "(owner, name) \<in> set (ownerRepo s) \<longleftrightarrow>
     (s = owner @ ''/'' @ name \<or> s = owner @ ''/'' @ name @ ''.git'')
     \<and> owner \<noteq> [] \<and> list_all notSlash owner \<and> name \<noteq> [] \<and> list_all notSlash name"
proof
  assume "(owner, name) \<in> set (ownerRepo s)"
  then obtain s1 s2 s3 where
    1: "(owner, s1) \<in> set (plusGreedy notSlash s)" and
    2: "s2 \<in> set (lit ''/'' s1)" and
    3: "(name, s3) \<in> set (plusLazy notSlash s2)" and
    4: "[] \<in> set (optGreedy ''.git'' s3)"
    unfolding ownerRepo_set by blast
  from 1 have a: "s = owner @ s1" "owner \<noteq> []" "list_all notSlash owner"
    by (auto dest: plusGreedy_member)
  from 2 have b: "s1 = ''/'' @ s2" by (simp add: lit_member)
  from 3 have c: "s2 = name @ s3" "name \<noteq> []" "list_all notSlash name"
    by (auto dest: plusLazy_member)
  from 4 have d: "s3 = ''.git'' \<or> s3 = []" by (auto simp add: optGreedy_member)
  from a b c d show "(s = owner @ ''/'' @ name \<or> s = owner @ ''/'' @ name @ ''.git'')
     \<and> owner \<noteq> [] \<and> list_all notSlash owner \<and> name \<noteq> [] \<and> list_all notSlash name"
    by auto
next
  assume r: "(s = owner @ ''/'' @ name \<or> s = owner @ ''/'' @ name @ ''.git'')
     \<and> owner \<noteq> [] \<and> list_all notSlash owner \<and> name \<noteq> [] \<and> list_all notSlash name"
  then obtain suf where suf: "s = owner @ ''/'' @ name @ suf" "suf = [] \<or> suf = ''.git''"
    by auto
  from r have 1: "(owner, ''/'' @ name @ suf) \<in> set (plusGreedy notSlash s)"
    unfolding suf(1) by (intro plus_intro) auto
  have 2: "name @ suf \<in> set (lit ''/'' (''/'' @ name @ suf))" by (simp add: lit_member)
  from r have 3: "(name, suf) \<in> set (plusLazy notSlash (name @ suf))"
    by (intro plus_intro) auto
  from suf(2) have 4: "[] \<in> set (optGreedy ''.git'' suf)" by (auto simp add: optGreedy_member)
  from 1 2 3 4 show "(owner, name) \<in> set (ownerRepo s)"
    unfolding ownerRepo_set by blast
qed

lemma sshPattern_member_lit:
  "m \<in> set (sshPattern s) \<longleftrightarrow>
     (\<exists>t. (s = ''git@github.com:'' @ t \<or> s = ''git@github.com/'' @ t) \<and> m \<in> set (ownerRepo t))"
proof -
  have "m \<in> set (sshPattern s) \<longleftrightarrow>
      (\<exists>s1 t. s1 \<in> set (lit ''git@github.com'' s)
         \<and> t \<in> set (oneOf (\<lambda>c. c = CHR '':'' \<or> c = CHR ''/'') s1) \<and> m \<in> set (ownerRepo t))"
    unfolding sshPattern_def by (simp only: set_concat set_map image_image UN_iff) blast
  also have "\<dots> \<longleftrightarrow>
      (\<exists>t. (s = ''git@github.com:'' @ t \<or> s = ''git@github.com/'' @ t) \<and> m \<in> set (ownerRepo t))"
    unfolding lit_member oneOf_member by auto
  finally show ?thesis .
qed

lemma httpsPattern_member_lit:
  "m \<in> set (httpsPattern s) \<longleftrightarrow>
     (\<exists>t. (s = ''https://github.com/'' @ t \<or> s = ''http://github.com/'' @ t)
        \<and> m \<in> set (ownerRepo t))"
proof -
  have "m \<in> set (httpsPattern s) \<longleftrightarrow>
      (\<exists>s1 s2 t. s1 \<in> set (lit ''http'' s) \<and> s2 \<in> set (optGreedy ''s'' s1)
         \<and> t \<in> set (lit ''://github.com/'' s2) \<and> m \<in> set (ownerRepo t))"
    unfolding httpsPattern_def by (simp only: set_concat set_map image_image UN_iff) blast
  also have "\<dots> \<longleftrightarrow>
      (\<exists>t. (s = ''https://github.com/'' @ t \<or> s = ''http://github.com/'' @ t)
        \<and> m \<in> set (ownerRepo t))"
    unfolding lit_member optGreedy_member by auto
  finally show ?thesis .
qed

lemma sshPattern_member:
  "m \<in> set (sshPattern s) \<longleftrightarrow>
     (\<exists>t. (s = sshColon @ t \<or> s = sshSlash @ t) \<and> m \<in> set (ownerRepo t))"
  unfolding sshColon_def sshSlash_def by (rule sshPattern_member_lit)

lemma httpsPattern_member:
  "m \<in> set (httpsPattern s) \<longleftrightarrow>
     (\<exists>t. (s = httpsSlash @ t \<or> s = httpSlash @ t) \<and> m \<in> set (ownerRepo t))"
  unfolding httpsSlash_def httpSlash_def by (rule httpsPattern_member_lit)

lemma FindStringSubmatch_Some:
  "FindStringSubmatch pat s = Some m \<Longrightarrow> \<exists>pre t. s = pre @ t \<and> m \<in> set (pat t)"
proof (induction s)
  case Nil
  then have "m \<in> set (pat [])" by (auto split: list.splits)
  then show ?case by auto
next
  case (Cons c cs)
  show ?case
  proof (cases "pat (c # cs)")
    case Nil
    with Cons.prems have "FindStringSubmatch pat cs = Some m" by simp
    with Cons.IH obtain pre t where "cs = pre @ t" "m \<in> set (pat t)" by blast
    then have "c # cs = (c # pre) @ t \<and> m \<in> set (pat t)" by simp
    then show ?thesis by blast
  next
    case (Cons m' ms)
    with Cons.prems have "m \<in> set (pat (c # cs))" by simp
    then have "c # cs = [] @ (c # cs) \<and> m \<in> set (pat (c # cs))" by simp
    then show ?thesis by blast
  qed
qed

lemma FindStringSubmatch_None:
  "FindStringSubmatch pat (pre @ t) = None \<Longrightarrow> pat t = []"
proof (induction pre)
  case Nil
  then show ?case by (cases t) (auto split: list.splits)
next
  case (Cons c pre)
  then show ?case by (auto split: list.splits)
qed

lemma FindStringSubmatch_first:
  "pat s = m # ms \<Longrightarrow> FindStringSubmatch pat s = Some m"
  by (cases s) simp_all

lemma first_match:
  assumes none: "\<forall>k. 1 \<le> k \<and> k < j \<longrightarrow> f k = []"
    and hit: "f j = y # ys" and j: "1 \<le> j" "j \<le> m"
  shows "\<exists>zs. concat (map f [1..<Suc m]) = y # zs"
proof -
  from j(1) have "[1..<j + (Suc m - j)] = [1..<j] @ [j..<j + (Suc m - j)]"
    by (rule upt_add_eq_append)
  with j have "[1..<Suc m] = [1..<j] @ [j..<Suc m]" by simp
  also from j have "[j..<Suc m] = j # [Suc j..<Suc m]" by (simp add: upt_conv_Cons)
  finally have split: "[1..<Suc m] = [1..<j] @ j # [Suc j..<Suc m]" .
  from none have c0: "concat (map f [1..<j]) = []" by simp
  have "concat (map f [1..<Suc m])
      = concat (map f [1..<j]) @ f j @ concat (map f [Suc j..<Suc m])"
    by (simp only: split map_append concat_append list.map concat.simps)
  then have "concat (map f [1..<Suc m]) = y # ys @ concat (map f [Suc j..<Suc m])"
    by (simp only: c0 hit append_Nil append_Cons)
  then show ?thesis by blast
qed

lemma ownerRepo_first:
  assumes o: "owner \<noteq> []" "list_all notSlash owner"
    and n: "name \<noteq> []" "list_all notSlash name"
    and suf: "suf = ''.git'' \<or> (suf = [] \<and> \<not> suffix ''.git'' name)"
  shows "\<exists>ms. ownerRepo (owner @ ''/'' @ name @ suf) = (owner, name) # ms"
proof -
  let ?r = "name @ suf"
  let ?s = "owner @ CHR ''/'' # ?r"
  let ?H = "\<lambda>name s3. concat (map (\<lambda>s4. if s4 = [] then [(owner, name)] else [])
             (optGreedy ''.git'' s3))"
  let ?G = "\<lambda>k. ?H (take k ?r) (drop k ?r)"
  have sufs: "list_all notSlash suf" using suf by (auto simp add: notSlash_def)
  have tw: "takeWhile notSlash ?s = owner"
    using o(2) by (simp add: list_all_iff notSlash_def)
  from o(1) have "rev [1..<Suc (length owner)] = length owner # rev [1..<length owner]"
    by (cases owner) simp_all
  then have pg: "plusGreedy notSlash ?s =
      (owner, CHR ''/'' # ?r) # map (\<lambda>k. (take k ?s, drop k ?s)) (rev [1..<length owner])"
    unfolding plusGreedy_def tw by simp
  have twr: "takeWhile notSlash ?r = ?r"
    using n(2) sufs by (simp add: list_all_iff)
  have pl: "plusLazy notSlash ?r = map (\<lambda>k. (take k ?r, drop k ?r)) [1..<Suc (length ?r)]"
    by (simp only: plusLazy_def twr)
  have none: "\<forall>k. 1 \<le> k \<and> k < length name \<longrightarrow> ?G k = []"
  proof (intro allI impI)
    fix k assume k: "1 \<le> k \<and> k < length name"
    then have d: "drop k ?r = drop k name @ suf" "drop k name \<noteq> []" by auto
    have "drop k name @ suf \<noteq> ''.git''"
    proof
      assume e: "drop k name @ suf = ''.git''"
      from suf show False
      proof
        assume "suf = ''.git''"
        with e d(2) show False by simp
      next
        assume "suf = [] \<and> \<not> suffix ''.git'' name"
        with e have "drop k name = ''.git''" "\<not> suffix ''.git'' name" by simp_all
        then show False by (metis suffix_drop)
      qed
    qed
    then have "[] \<notin> set (optGreedy ''.git'' (drop k ?r))"
      using d by (auto simp add: optGreedy_member)
    then show "?G k = []" by (auto simp add: concat_eq_Nil_conv)
  qed
  have hit: "?G (length name) = (owner, name) # []"
    using suf by (auto simp add: optGreedy_def lit_def HasPrefix_def)
  have "\<exists>zs. concat (map ?G [1..<Suc (length ?r)]) = (owner, name) # zs"
    using none hit n(1) by (intro first_match [of "length name"]) (auto simp add: Suc_le_eq)
  then obtain zs where zs: "concat (map ?G [1..<Suc (length ?r)]) = (owner, name) # zs" by blast
  have "concat (map (\<lambda>(name, s3). ?H name s3) (plusLazy notSlash ?r)) = (owner, name) # zs"
    by (simp only: pl map_map comp_def case_prod_conv zs)
  then have "\<exists>ms. ownerRepo ?s = (owner, name) # ms"
    by (simp add: ownerRepo_def pg lit_def HasPrefix_def)
  then show ?thesis by simp
qed


lemma pattern_at_prefix:
  "sshPattern (sshColon @ t) = ownerRepo t"
  "sshPattern (sshSlash @ t) = ownerRepo t"
  "httpsPattern (httpsSlash @ t) = ownerRepo t"
  "httpsPattern (httpSlash @ t) = ownerRepo t"
  by (simp_all add: sshColon_def sshSlash_def httpsSlash_def httpSlash_def
      sshPattern_def httpsPattern_def lit_def optGreedy_def oneOf_def HasPrefix_def)

lemma githubPrefixes_member:
  "scheme \<in> set githubPrefixes \<longleftrightarrow>
     scheme = sshColon \<or> scheme = sshSlash \<or> scheme = httpsSlash \<or> scheme = httpSlash"
  by (auto simp add: githubPrefixes_def)

lemma no_at_no_ssh: "CHR ''@'' \<notin> set s \<Longrightarrow> FindStringSubmatch sshPattern s = None"
proof (induction s)
  case Nil
  have "sshPattern [] = []" by (simp add: sshPattern_def lit_def HasPrefix_def)
  then show ?case by simp
next
  case (Cons c cs)
  have "m \<notin> set (sshPattern (c # cs))" for m
  proof
    assume "m \<in> set (sshPattern (c # cs))"
    then obtain t where "c # cs = sshColon @ t \<or> c # cs = sshSlash @ t"
      unfolding sshPattern_member by blast
    then have "CHR ''@'' \<in> set (c # cs)"
      unfolding sshColon_def sshSlash_def by auto
    with Cons.prems show False by blast
  qed
  then have "sshPattern (c # cs) = []" by (cases "sshPattern (c # cs)") auto
  moreover from Cons have "FindStringSubmatch sshPattern cs = None" by simp
  ultimately show ?case by simp
qed

lemma endsAsRemoteI:
  assumes "s = pre @ scheme @ owner @ ''/'' @ name @ suf"
    and "scheme \<in> set githubPrefixes" and "suf = [] \<or> suf = ''.git''"
    and "owner \<noteq> []" and "list_all notSlash owner" and "name \<noteq> []" and "list_all notSlash name"
  shows "endsAsRemote s owner name"
  unfolding endsAsRemote_def using assms by blast

lemma parse_sound:
  assumes "ParseRemoteURL url = Inr info"
  shows "endsAsRemote (TrimSpace url) (Owner info) (Name info)"
proof -
  let ?s = "TrimSpace url"
  let ?m = "(Owner info, Name info)"
  from assms have "FindStringSubmatch sshPattern ?s = Some ?m
      \<or> FindStringSubmatch httpsPattern ?s = Some ?m"
    by (auto simp add: ParseRemoteURL_def Let_def split: option.splits)
  then obtain pre t where pt: "?s = pre @ t"
    "?m \<in> set (sshPattern t) \<or> ?m \<in> set (httpsPattern t)"
    using FindStringSubmatch_Some by metis
  from pt(2) obtain scheme t' where st: "t = scheme @ t'" "scheme \<in> set githubPrefixes"
    "?m \<in> set (ownerRepo t')"
    unfolding sshPattern_member httpsPattern_member githubPrefixes_member by blast
  from st(3) have c: "t' = Owner info @ ''/'' @ Name info \<or> t' = Owner info @ ''/'' @ Name info @ ''.git''"
    and p: "Owner info \<noteq> []" "list_all notSlash (Owner info)"
    "Name info \<noteq> []" "list_all notSlash (Name info)"
    unfolding ownerRepo_member by simp_all
  from c show ?thesis
  proof
    assume "t' = Owner info @ ''/'' @ Name info"
    with pt(1) st(1) have "?s = pre @ scheme @ Owner info @ ''/'' @ Name info @ []" by simp
    then show ?thesis using st(2) _ p by (rule endsAsRemoteI) simp
  next
    assume "t' = Owner info @ ''/'' @ Name info @ ''.git''"
    with pt(1) st(1) have "?s = pre @ scheme @ Owner info @ ''/'' @ Name info @ ''.git''" by simp
    then show ?thesis using st(2) _ p by (rule endsAsRemoteI) simp
  qed
qed

lemma parse_complete:
  assumes "endsAsRemote (TrimSpace url) owner name"
  shows "\<exists>info. ParseRemoteURL url = Inr info"
proof -
  let ?s = "TrimSpace url"
  from assms obtain pre scheme suf where d: "?s = pre @ scheme @ owner @ ''/'' @ name @ suf"
    "scheme \<in> set githubPrefixes" "suf = [] \<or> suf = ''.git''"
    "owner \<noteq> []" "list_all notSlash owner" "name \<noteq> []" "list_all notSlash name"
    unfolding endsAsRemote_def by blast
  let ?t = "owner @ ''/'' @ name @ suf"
  from d(3-7) have "(owner, name) \<in> set (ownerRepo ?t)"
    unfolding ownerRepo_member by auto
  then have ne: "ownerRepo ?t \<noteq> []" by auto
  from d(2) have "sshPattern (scheme @ ?t) = ownerRepo ?t \<or> httpsPattern (scheme @ ?t) = ownerRepo ?t"
    unfolding githubPrefixes_member using pattern_at_prefix by blast
  with ne have "sshPattern (scheme @ ?t) \<noteq> [] \<or> httpsPattern (scheme @ ?t) \<noteq> []"
    by auto
  moreover from d(1) have e: "?s = pre @ (scheme @ ?t)" by (simp only: append_assoc)
  ultimately have "FindStringSubmatch sshPattern ?s \<noteq> None \<or> FindStringSubmatch httpsPattern ?s \<noteq> None"
    unfolding e
    using FindStringSubmatch_None [of sshPattern pre "scheme @ ?t"]
      FindStringSubmatch_None [of httpsPattern pre "scheme @ ?t"]
    by blast
  then show ?thesis
    by (auto simp add: ParseRemoteURL_def Let_def split: option.splits)
qed

lemma parse_canonical:
  assumes url: "TrimSpace url = scheme @ owner @ ''/'' @ name @ suf"
    and o: "owner \<noteq> []" "list_all notSlash owner"
    and n: "name \<noteq> []" "list_all notSlash name"
    and suf: "suf = ''.git'' \<or> (suf = [] \<and> \<not> suffix ''.git'' name)"
    and scheme: "scheme = sshColon \<or> scheme = sshSlash
       \<or> ((scheme = httpsSlash \<or> scheme = httpSlash)
           \<and> CHR ''@'' \<notin> set owner \<and> CHR ''@'' \<notin> set name)"
  shows "ParseRemoteURL url = Inr \<lparr>Owner = owner, Name = name\<rparr>"
proof -
  let ?t = "owner @ ''/'' @ name @ suf"
  from ownerRepo_first [OF o n suf] obtain ms where ms: "ownerRepo ?t = (owner, name) # ms"
    by blast
  from scheme consider
    (ssh) "scheme = sshColon \<or> scheme = sshSlash"
    | (https) "scheme = httpsSlash \<or> scheme = httpSlash"
        "CHR ''@'' \<notin> set owner" "CHR ''@'' \<notin> set name"
    by blast
  then show ?thesis
  proof cases
    case ssh
    then have "sshPattern (scheme @ ?t) = ownerRepo ?t"
      using pattern_at_prefix by blast
    with ms have "sshPattern (scheme @ ?t) = (owner, name) # ms" by (simp only:)
    then have "FindStringSubmatch sshPattern (TrimSpace url) = Some (owner, name)"
      unfolding url by (rule FindStringSubmatch_first)
    then show ?thesis by (simp add: ParseRemoteURL_def)
  next
    case https
    from https(1) have "CHR ''@'' \<notin> set scheme"
      unfolding httpsSlash_def httpSlash_def by auto
    moreover from suf have "CHR ''@'' \<notin> set suf" by auto
    ultimately have "CHR ''@'' \<notin> set (scheme @ ?t)" using https(2,3) by simp
    then have "FindStringSubmatch sshPattern (TrimSpace url) = None"
      unfolding url by (rule no_at_no_ssh)
    moreover from https(1) have "httpsPattern (scheme @ ?t) = ownerRepo ?t"
      using pattern_at_prefix by blast
    with ms have "httpsPattern (scheme @ ?t) = (owner, name) # ms" by (simp only:)
    then have "FindStringSubmatch httpsPattern (TrimSpace url) = Some (owner, name)"
      unfolding url by (rule FindStringSubmatch_first)
    ultimately show ?thesis by (simp add: ParseRemoteURL_def)
  qed
qed

lemma parse_rejected:
  assumes "\<not> (\<exists>owner name. endsAsRemote (TrimSpace url) owner name)"
  shows "ParseRemoteURL url = Inl (''could not parse GitHub remote URL: '' @ TrimSpace url)"
proof -
  from assms parse_sound have "\<not> (\<exists>info. ParseRemoteURL url = Inr info)" by blast
  then show ?thesis
    by (auto simp add: ParseRemoteURL_def Let_def split: option.splits)
qed

lemma remote_examples:
  "ParseRemoteURL ''git@github.com:acme/widgets.git'' = Inr \<lparr>Owner = ''acme'', Name = ''widgets''\<rparr>"
  "ParseRemoteURL ''https://github.com/acme/widgets'' = Inr \<lparr>Owner = ''acme'', Name = ''widgets''\<rparr>"
  "ParseRemoteURL ''https://gitlab.com/acme/widgets'' =
     Inl ''could not parse GitHub remote URL: https://gitlab.com/acme/widgets''"
  by code_simp+

text \<open>
  Claim C8, as stated, fails: URLs that are neither of the two forms are accepted. The
  patterns are searched for anywhere in the URL, so a GitLab URL that ends like a GitHub
  remote is accepted; and \<open>http://\<close> is accepted like \<open>https://\<close>.
\<close>

theorem remote_url_other_forms_counterexample:
  "ParseRemoteURL ''https://gitlab.com/mirror/git@github.com/acme/widgets'' =
     Inr \<lparr>Owner = ''acme'', Name = ''widgets''\<rparr>
   \<and> \<not> HasPrefix ''https://gitlab.com/mirror/git@github.com/acme/widgets'' ''git@github.com:''
   \<and> \<not> HasPrefix ''https://gitlab.com/mirror/git@github.com/acme/widgets'' ''https://github.com/''
   \<and> ParseRemoteURL ''http://github.com/acme/widgets'' =
     Inr \<lparr>Owner = ''acme'', Name = ''widgets''\<rparr>"
  by code_simp

text \<open>
  Claim C8, amended. \<^verbatim>\<open>ParseRemoteURL\<close> trims the URL and accepts it exactly when it ends
  with \<open>git@github.com:\<close>, \<open>git@github.com/\<close>, \<open>https://github.com/\<close> or
  \<open>http://github.com/\<close> followed by an owner, a slash, a name and an optional \<open>.git\<close>,
  owner and name not empty and without a slash; anything may stand before. The owner and
  name it returns are such an ending of the trimmed URL, and every other URL is rejected
  with the error. When the trimmed URL is one of the four prefixes followed by
  owner, slash, name and either \<open>.git\<close> or nothing (the name then not ending in
  \<open>.git\<close>), and for the two HTTP prefixes owner and name hold no \<open>@\<close>, exactly that owner
  and name are returned. The three examples hold.
\<close>

theorem remote_url_accepted_forms:
  "(ParseRemoteURL url = Inr info \<longrightarrow> endsAsRemote (TrimSpace url) (Owner info) (Name info))
   \<and> ((\<exists>info'. ParseRemoteURL url = Inr info') \<longleftrightarrow>
        (\<exists>owner' name'. endsAsRemote (TrimSpace url) owner' name'))
   \<and> (\<not> (\<exists>owner' name'. endsAsRemote (TrimSpace url) owner' name') \<longrightarrow>
        ParseRemoteURL url = Inl (''could not parse GitHub remote URL: '' @ TrimSpace url))
   \<and> (TrimSpace url = scheme @ owner @ ''/'' @ name @ suf
        \<and> owner \<noteq> [] \<and> list_all notSlash owner \<and> name \<noteq> [] \<and> list_all notSlash name
        \<and> (suf = ''.git'' \<or> suf = [] \<and> \<not> suffix ''.git'' name)
        \<and> (scheme = ''git@github.com:'' \<or> scheme = ''git@github.com/''
            \<or> (scheme = ''https://github.com/'' \<or> scheme = ''http://github.com/'')
               \<and> CHR ''@'' \<notin> set owner \<and> CHR ''@'' \<notin> set name) \<longrightarrow>
        ParseRemoteURL url = Inr \<lparr>Owner = owner, Name = name\<rparr>)
   \<and> ParseRemoteURL ''git@github.com:acme/widgets.git'' = Inr \<lparr>Owner = ''acme'', Name = ''widgets''\<rparr>
   \<and> ParseRemoteURL ''https://github.com/acme/widgets'' = Inr \<lparr>Owner = ''acme'', Name = ''widgets''\<rparr>
   \<and> ParseRemoteURL ''https://gitlab.com/acme/widgets'' =
        Inl ''could not parse GitHub remote URL: https://gitlab.com/acme/widgets''"
proof -
  have sound: "ParseRemoteURL url = Inr info \<longrightarrow>
      endsAsRemote (TrimSpace url) (Owner info) (Name info)"
    using parse_sound by blast
  have iff: "(\<exists>info'. ParseRemoteURL url = Inr info') \<longleftrightarrow>
        (\<exists>owner' name'. endsAsRemote (TrimSpace url) owner' name')"
    using parse_sound parse_complete by blast
  have rej: "\<not> (\<exists>owner' name'. endsAsRemote (TrimSpace url) owner' name') \<longrightarrow>
        ParseRemoteURL url = Inl (''could not parse GitHub remote URL: '' @ TrimSpace url)"
    using parse_rejected by blast
  have canon: "TrimSpace url = scheme @ owner @ ''/'' @ name @ suf
        \<and> owner \<noteq> [] \<and> list_all notSlash owner \<and> name \<noteq> [] \<and> list_all notSlash name
        \<and> (suf = ''.git'' \<or> suf = [] \<and> \<not> suffix ''.git'' name)
        \<and> (scheme = ''git@github.com:'' \<or> scheme = ''git@github.com/''
            \<or> (scheme = ''https://github.com/'' \<or> scheme = ''http://github.com/'')
               \<and> CHR ''@'' \<notin> set owner \<and> CHR ''@'' \<notin> set name) \<longrightarrow>
        ParseRemoteURL url = Inr \<lparr>Owner = owner, Name = name\<rparr>"
    using parse_canonical [of url scheme owner name suf]
    unfolding sshColon_def sshSlash_def httpsSlash_def httpSlash_def by blast
  from sound iff rej canon remote_examples show ?thesis by (simp only: simp_thms)
qed

theorem remote_url_accepted_forms_witness:
  "ParseRemoteURL (''  git@github.com:acme/widgets.git'' @ nl) =
     Inr \<lparr>Owner = ''acme'', Name = ''widgets''\<rparr>
   \<and> endsAsRemote ''git@github.com:acme/widgets.git'' ''acme'' ''widgets''
   \<and> ParseRemoteURL ''https://github.com/my-org/my_repo'' =
     Inr \<lparr>Owner = ''my-org'', Name = ''my_repo''\<rparr>"
proof -
  have t1: "TrimSpace (''  git@github.com:acme/widgets.git'' @ nl)
      = ''git@github.com:'' @ ''acme'' @ ''/'' @ ''widgets'' @ ''.git''"
    by code_simp
  have t2: "TrimSpace ''https://github.com/my-org/my_repo''
      = ''https://github.com/'' @ ''my-org'' @ ''/'' @ ''my_repo'' @ []"
    by code_simp
  have c: "list_all notSlash ''acme''" "list_all notSlash ''widgets''"
    "list_all notSlash ''my-org''" "list_all notSlash ''my_repo''"
    "\<not> suffix ''.git'' ''my_repo''"
    by (simp_all add: notSlash_def suffix_to_prefix)
  have 1: "ParseRemoteURL (''  git@github.com:acme/widgets.git'' @ nl) =
     Inr \<lparr>Owner = ''acme'', Name = ''widgets''\<rparr>"
    using remote_url_accepted_forms
      [of "''  git@github.com:acme/widgets.git'' @ nl" _ "''git@github.com:''" "''acme''"
          "''widgets''" "''.git''"] t1 c
    by simp
  have 3: "ParseRemoteURL ''https://github.com/my-org/my_repo'' =
     Inr \<lparr>Owner = ''my-org'', Name = ''my_repo''\<rparr>"
    using remote_url_accepted_forms
      [of "''https://github.com/my-org/my_repo''" _ "''https://github.com/''" "''my-org''"
          "''my_repo''" "[]"] t2 c
    by simp
  have "TrimSpace ''git@github.com:acme/widgets.git'' = ''git@github.com:acme/widgets.git''"
    by code_simp
  then have 2: "endsAsRemote ''git@github.com:acme/widgets.git'' ''acme'' ''widgets''"
    using remote_url_accepted_forms
      [of "''git@github.com:acme/widgets.git''" "\<lparr>Owner = ''acme'', Name = ''widgets''\<rparr>"]
    by simp
  from 1 2 3 show ?thesis by simp
qed

end
